theory Spec2Isabelle
  imports Complex_Main
begin

section \<open>Values of the Python runtime\<close>

text \<open>
  What aiohttp's \<^verbatim>\<open>resp.json()\<close> hands to the program: None, bool, int, float, str, list
  and dict. A Python float is modelled by the rational number it denotes (binary rounding,
  NaN and the infinities are outside the model). \<open>JObj\<close> holds the entries of a dict whose
  keys are strings; a lookup takes the entry found by \<open>map_of\<close>.
\<close>

datatype json =
    JNull
  | JBool bool
  | JInt int
  | JFloat rat
  | JStr string
  | JList "json list"
  | JObj "(string \<times> json) list"

text \<open>The exceptions the two modules can raise or let through.\<close>

datatype error = KeyError | TypeError | AttributeError | ValueError | OverflowError | OtherError

text \<open>A measurement: \<^verbatim>\<open>str | int | float\<close>.\<close>

datatype dvalue = VStr string | VInt int | VFloat rat

text \<open>
  The conversions between text and numbers belong to the Python runtime, not to the
  program. They are a parameter of the model: \<open>str_of\<close> is \<^verbatim>\<open>str(x)\<close> for an \<open>x\<close>
  that is not a str, \<open>int_of_str\<close> and \<open>float_of_str\<close> are the parsers behind
  \<^verbatim>\<open>int(s)\<close> and \<^verbatim>\<open>float(s)\<close>, with \<open>None\<close> where Python raises ValueError.
\<close>

record runtime =
  str_of :: "json \<Rightarrow> string"
  int_of_str :: "string \<Rightarrow> int option"
  float_of_str :: "string \<Rightarrow> rat option"

text \<open>Sequencing of computations that may raise.\<close>

fun ebind :: "'e + 'a \<Rightarrow> ('a \<Rightarrow> 'e + 'b) \<Rightarrow> 'e + 'b" where
  "ebind (Inl e) f = Inl e"
| "ebind (Inr x) f = f x"

text \<open>\<^verbatim>\<open>x[k]\<close> with a string \<open>k\<close>: only a dict can be subscripted by a string.\<close>

fun py_getitem :: "json \<Rightarrow> string \<Rightarrow> error + json" where
  "py_getitem (JObj kvs) k = (case map_of kvs k of None \<Rightarrow> Inl KeyError | Some v \<Rightarrow> Inr v)"
| "py_getitem _ k = Inl TypeError"

text \<open>\<^verbatim>\<open>x.get(k)\<close>: only a dict has the method; a missing key gives None.\<close>

fun py_get :: "json \<Rightarrow> string \<Rightarrow> error + json" where
  "py_get (JObj kvs) k = Inr (case map_of kvs k of None \<Rightarrow> JNull | Some v \<Rightarrow> v)"
| "py_get _ k = Inl AttributeError"

text \<open>\<^verbatim>\<open>for record in x\<close>: a list gives its elements, a dict its keys, a str its
  characters; nothing else can be iterated.\<close>

fun py_iter :: "json \<Rightarrow> error + json list" where
  "py_iter (JList xs) = Inr xs"
| "py_iter (JObj kvs) = Inr (map (\<lambda>kv. JStr (fst kv)) kvs)"
| "py_iter (JStr s) = Inr (map (\<lambda>c. JStr [c]) s)"
| "py_iter _ = Inl TypeError"

text \<open>\<^verbatim>\<open>x == n\<close> for a number \<open>n\<close>: True, 1 and 1.0 are equal in Python.\<close>

fun json_eq_num :: "json \<Rightarrow> rat \<Rightarrow> bool" where
  "json_eq_num (JInt n) q = (of_int n = q)"
| "json_eq_num (JFloat r) q = (r = q)"
| "json_eq_num (JBool b) q = ((if b then 1 else 0) = q)"
| "json_eq_num _ q = False"

fun dvalue_eq_num :: "dvalue \<Rightarrow> rat \<Rightarrow> bool" where
  "dvalue_eq_num (VInt n) q = (of_int n = q)"
| "dvalue_eq_num (VFloat r) q = (r = q)"
| "dvalue_eq_num (VStr s) q = False"

subsection \<open>The type constructors \<^verbatim>\<open>str\<close>, \<^verbatim>\<open>int\<close>, \<^verbatim>\<open>float\<close> and \<^verbatim>\<open>round\<close>\<close>

datatype vtype = TStr | TInt | TFloat

text \<open>An int converts to a float unless it rounds to \<open>2 ^ 1024\<close> or beyond.\<close>

definition float_of_int :: "int \<Rightarrow> error + rat" where
  "float_of_int n =
     (if \<bar>n\<bar> \<ge> 2 ^ 1024 - 2 ^ 970 then Inl OverflowError else Inr (of_int n))"

definition trunc :: "rat \<Rightarrow> int" where
  "trunc q = (if 0 \<le> q then \<lfloor>q\<rfloor> else \<lceil>q\<rceil>)"

fun py_str :: "runtime \<Rightarrow> json \<Rightarrow> string" where
  "py_str rt (JStr s) = s"
| "py_str rt x = str_of rt x"

fun py_int :: "runtime \<Rightarrow> json \<Rightarrow> error + int" where
  "py_int rt (JInt n) = Inr n"
| "py_int rt (JBool b) = Inr (if b then 1 else 0)"
| "py_int rt (JFloat q) = Inr (trunc q)"
| "py_int rt (JStr s) = (case int_of_str rt s of None \<Rightarrow> Inl ValueError | Some n \<Rightarrow> Inr n)"
| "py_int rt _ = Inl TypeError"

fun py_float :: "runtime \<Rightarrow> json \<Rightarrow> error + rat" where
  "py_float rt (JInt n) = float_of_int n"
| "py_float rt (JBool b) = Inr (if b then 1 else 0)"
| "py_float rt (JFloat q) = Inr q"
| "py_float rt (JStr s) = (case float_of_str rt s of None \<Rightarrow> Inl ValueError | Some q \<Rightarrow> Inr q)"
| "py_float rt _ = Inl TypeError"

text \<open>\<^verbatim>\<open>float(v)\<close> for a measurement \<open>v\<close>.\<close>

fun dvalue_float :: "runtime \<Rightarrow> dvalue \<Rightarrow> error + rat" where
  "dvalue_float rt (VInt n) = float_of_int n"
| "dvalue_float rt (VFloat q) = Inr q"
| "dvalue_float rt (VStr s) = (case float_of_str rt s of None \<Rightarrow> Inl ValueError | Some q \<Rightarrow> Inr q)"

text \<open>Rounding to the nearest integer, a tie going to the even neighbour.\<close>

definition round_half_even :: "rat \<Rightarrow> int" where
  "round_half_even q =
     (let f = \<lfloor>q\<rfloor>; d = q - of_int f
      in if d < 1 / 2 then f else if 1 / 2 < d then f + 1 else if even f then f else f + 1)"

text \<open>\<^verbatim>\<open>round(x, precision)\<close> for a float \<open>x\<close>: an int when the precision is None.\<close>

fun py_round :: "rat \<Rightarrow> nat option \<Rightarrow> dvalue" where
  "py_round q None = VInt (round_half_even q)"
| "py_round q (Some p) = VFloat (of_int (round_half_even (q * 10 ^ p)) / 10 ^ p)"

text \<open>\<^verbatim>\<open>result = type_(data_raw)\<close>, then \<^verbatim>\<open>round\<close> when the type is float.\<close>

fun convert :: "runtime \<Rightarrow> vtype \<Rightarrow> nat option \<Rightarrow> json \<Rightarrow> error + dvalue" where
  "convert rt TStr precision data_raw = Inr (VStr (py_str rt data_raw))"
| "convert rt TInt precision data_raw = ebind (py_int rt data_raw) (\<lambda>n. Inr (VInt n))"
| "convert rt TFloat precision data_raw =
     ebind (py_float rt data_raw) (\<lambda>q. Inr (py_round q precision))"

section \<open>ginlong\_api: the schema table\<close>

text \<open>
  Modelled from the spec: the module \<^verbatim>\<open>ginlong_const\<close>, which binds each attribute name
  to a string, is not among the sources. The spec requires that every attribute name of
  the registry is unique, so each constant is a constructor of its own.
\<close>

datatype (plugins only: code) attribute =
    INVERTER_SERIAL | INVERTER_PLANT_ID | INVERTER_LAT | INVERTER_LON | INVERTER_ADDRESS
  | INVERTER_DEVICE_ID | INVERTER_DATALOGGER_SERIAL | INVERTER_TIMESTAMP_ONLINE
  | INVERTER_TIMESTAMP_UPDATE | INVERTER_STATE
  | INVERTER_TEMPERATURE | INVERTER_POWER_LIMIT | INVERTER_POWER_STATE
  | INVERTER_ACPOWER | INVERTER_ACFREQUENCY | INVERTER_ENERGY_LAST_MONTH
  | INVERTER_ENERGY_TODAY | INVERTER_ENERGY_THIS_MONTH | INVERTER_ENERGY_THIS_YEAR
  | INVERTER_ENERGY_TOTAL_LIFE
  | STRING1_VOLTAGE | STRING2_VOLTAGE | STRING3_VOLTAGE | STRING4_VOLTAGE
  | STRING1_CURRENT | STRING2_CURRENT | STRING3_CURRENT | STRING4_CURRENT
  | STRING1_POWER | STRING2_POWER | STRING3_POWER | STRING4_POWER
  | PHASE1_VOLTAGE | PHASE2_VOLTAGE | PHASE3_VOLTAGE
  | PHASE1_CURRENT | PHASE2_CURRENT | PHASE3_CURRENT
  | BAT_REMAINING_CAPACITY | BAT_TOTAL_ENERGY_CHARGED | BAT_TOTAL_ENERGY_DISCHARGED
  | BAT_DAILY_ENERGY_CHARGED | BAT_DAILY_ENERGY_DISCHARGED
  | GRID_DAILY_ON_GRID_ENERGY | GRID_DAILY_ENERGY_PURCHASED | GRID_DAILY_ENERGY_USED
  | GRID_MONTHLY_ENERGY_PURCHASED | GRID_MONTHLY_ENERGY_USED
  | GRID_YEARLY_ENERGY_PURCHASED | GRID_YEARLY_ENERGY_USED
  | GRID_TOTAL_ON_GRID_ENERGY | GRID_TOTAL_CONSUMPTION_ENERGY | GRID_TOTAL_POWER
  | GRID_TOTAL_CONSUMPTION_POWER | GRID_TOTAL_ENERGY_USED

text \<open>\<^verbatim>\<open>VALUE_RECORD\<close> selects \<^verbatim>\<open>_get_value_from_record\<close>, \<^verbatim>\<open>VALUE_ELEMENT\<close>
  selects \<^verbatim>\<open>_get_value\<close>.\<close>

datatype payload_type = VALUE_RECORD | VALUE_ELEMENT

type_synonym field_spec = "attribute \<times> string \<times> vtype \<times> nat option"

text \<open>\<^verbatim>\<open>INVERTER_DATA\<close>, in the order of the dict literal.\<close>

definition INVERTER_DATA :: "(string \<times> payload_type \<times> field_spec list) list" where
  "INVERTER_DATA =
   [(''none'', VALUE_ELEMENT,
      [(INVERTER_SERIAL, ''sn'', TStr, None),
       (INVERTER_PLANT_ID, ''plantId'', TStr, None),
       (INVERTER_LAT, ''lat'', TFloat, Some 7),
       (INVERTER_LON, ''lon'', TFloat, Some 7),
       (INVERTER_ADDRESS, ''address'', TStr, None),
       (INVERTER_DEVICE_ID, ''deviceId'', TStr, None),
       (INVERTER_DATALOGGER_SERIAL, ''dataloggerSn'', TStr, None),
       (INVERTER_TIMESTAMP_ONLINE, ''receiveTimestamps'', TInt, None),
       (INVERTER_TIMESTAMP_UPDATE, ''updateDate'', TInt, None),
       (INVERTER_STATE, ''state'', TInt, None)]),
    (''realTimeDataImp'', VALUE_RECORD,
      [(INVERTER_TEMPERATURE, ''1df'', TFloat, Some 1)]),
    (''realTimeDataOther'', VALUE_RECORD,
      [(INVERTER_POWER_LIMIT, ''1rv'', TFloat, Some 2)]),
    (''realTimeDataState'', VALUE_RECORD,
      [(INVERTER_POWER_STATE, ''1fd'', TInt, None)]),
    (''realTimeDataPower'', VALUE_RECORD,
      [(INVERTER_ACPOWER, ''1ao'', TFloat, Some 2),
       (INVERTER_ACFREQUENCY, ''1ar'', TFloat, Some 2),
       (INVERTER_ENERGY_LAST_MONTH, ''1ru'', TFloat, Some 2),
       (INVERTER_ENERGY_TODAY, ''1bd'', TFloat, Some 2),
       (INVERTER_ENERGY_THIS_MONTH, ''1be'', TFloat, Some 2),
       (INVERTER_ENERGY_THIS_YEAR, ''1bf'', TFloat, Some 2),
       (INVERTER_ENERGY_TOTAL_LIFE, ''1bc'', TFloat, Some 2),
       (STRING1_VOLTAGE, ''1a'', TFloat, Some 2),
       (STRING2_VOLTAGE, ''1b'', TFloat, Some 2),
       (STRING3_VOLTAGE, ''1c'', TFloat, Some 2),
       (STRING4_VOLTAGE, ''1d'', TFloat, Some 2),
       (STRING1_CURRENT, ''1j'', TFloat, Some 2),
       (STRING2_CURRENT, ''1k'', TFloat, Some 2),
       (STRING3_CURRENT, ''1l'', TFloat, Some 2),
       (STRING4_CURRENT, ''1m'', TFloat, Some 2),
       (STRING1_POWER, ''1s'', TFloat, Some 2),
       (STRING2_POWER, ''1t'', TFloat, Some 2),
       (STRING3_POWER, ''1u'', TFloat, Some 2),
       (STRING4_POWER, ''1v'', TFloat, Some 2),
       (PHASE1_VOLTAGE, ''1af'', TFloat, Some 2),
       (PHASE2_VOLTAGE, ''1ag'', TFloat, Some 2),
       (PHASE3_VOLTAGE, ''1ah'', TFloat, Some 2),
       (PHASE1_CURRENT, ''1ai'', TFloat, Some 2),
       (PHASE2_CURRENT, ''1aj'', TFloat, Some 2),
       (PHASE3_CURRENT, ''1ak'', TFloat, Some 2)]),
    (''dataJSON'', VALUE_ELEMENT,
      [(BAT_REMAINING_CAPACITY, ''1cv'', TFloat, Some 2),
       (BAT_TOTAL_ENERGY_CHARGED, ''1cx'', TFloat, Some 2),
       (BAT_TOTAL_ENERGY_DISCHARGED, ''1cy'', TFloat, Some 2),
       (BAT_DAILY_ENERGY_CHARGED, ''1cz'', TFloat, Some 2),
       (BAT_DAILY_ENERGY_DISCHARGED, ''1da'', TFloat, Some 2),
       (GRID_DAILY_ON_GRID_ENERGY, ''1bw'', TFloat, Some 2),
       (GRID_DAILY_ENERGY_PURCHASED, ''1bx'', TFloat, Some 2),
       (GRID_DAILY_ENERGY_USED, ''1co'', TFloat, Some 2),
       (GRID_MONTHLY_ENERGY_PURCHASED, ''1bz'', TFloat, Some 2),
       (GRID_MONTHLY_ENERGY_USED, ''1cp'', TFloat, Some 2),
       (GRID_YEARLY_ENERGY_PURCHASED, ''1cb'', TFloat, Some 2),
       (GRID_YEARLY_ENERGY_USED, ''1cq'', TFloat, Some 2),
       (GRID_TOTAL_ON_GRID_ENERGY, ''1bu'', TFloat, Some 2),
       (GRID_TOTAL_CONSUMPTION_ENERGY, ''1cn'', TFloat, Some 2),
       (GRID_TOTAL_POWER, ''1bq'', TFloat, Some 2),
       (GRID_TOTAL_CONSUMPTION_POWER, ''1cj'', TFloat, Some 2),
       (GRID_TOTAL_ENERGY_USED, ''1bv'', TFloat, Some 2)])]"

section \<open>ginlong\_api: measurement sets\<close>

text \<open>
  \<^verbatim>\<open>self._data\<close> is a Python dict: the keys are in the order of their first insertion,
  and a key occurs once. It is an association list, with the dict's own operations.
\<close>

type_synonym measurements = "(attribute \<times> dvalue) list"

definition dict_get :: "measurements \<Rightarrow> attribute \<Rightarrow> dvalue option" where
  "dict_get d k = map_of d k"

definition dict_contains :: "measurements \<Rightarrow> attribute \<Rightarrow> bool" where
  "dict_contains d k = (k \<in> set (map fst d))"

text \<open>\<^verbatim>\<open>d[k] = v\<close>: a known key keeps its place, a new key goes to the end.\<close>

fun dict_set :: "('k \<times> 'v) list \<Rightarrow> 'k \<Rightarrow> 'v \<Rightarrow> ('k \<times> 'v) list" where
  "dict_set [] k v = [(k, v)]"
| "dict_set (p # d) k v = (if fst p = k then (k, v) # d else p # dict_set d k v)"

text \<open>\<^verbatim>\<open>d.pop(k)\<close> raises KeyError when the key is missing.\<close>

definition dict_pop :: "measurements \<Rightarrow> attribute \<Rightarrow> error + measurements" where
  "dict_pop d k =
     (if dict_contains d k then Inr (filter (\<lambda>p. fst p \<noteq> k) d) else Inl KeyError)"

text \<open>\<^verbatim>\<open>GinlongData.keys\<close>: \<^verbatim>\<open>list.remove\<close> raises ValueError when the state is not
  among the keys.\<close>

definition keys :: "measurements \<Rightarrow> error + attribute list" where
  "keys d =
     (let available_measurements = map fst d
      in if INVERTER_STATE \<in> set available_measurements
         then Inr (INVERTER_STATE # remove1 INVERTER_STATE available_measurements)
         else Inl ValueError)"

text \<open>\<^verbatim>\<open>GinlongData.__getattr__\<close>: a KeyError of the dict becomes an AttributeError.\<close>

definition getattr :: "measurements \<Rightarrow> attribute \<Rightarrow> error + dvalue" where
  "getattr d name = (case dict_get d name of None \<Rightarrow> Inl AttributeError | Some v \<Rightarrow> Inr v)"

section \<open>ginlong\_api: extraction\<close>

text \<open>\<^verbatim>\<open>GinlongAPI._get_value\<close>.\<close>

definition get_value ::
  "runtime \<Rightarrow> json \<Rightarrow> string \<Rightarrow> vtype \<Rightarrow> nat option \<Rightarrow> error + dvalue option" where
  "get_value rt data key ty precision =
     ebind (py_get data key) (\<lambda>data_raw.
       if data_raw \<noteq> JNull
       then ebind (convert rt ty precision data_raw) (\<lambda>result. Inr (Some result))
       else Inr None)"

text \<open>The body of the loop of \<^verbatim>\<open>GinlongAPI._get_value_from_record\<close>: the new
  \<^verbatim>\<open>result\<close> after one record.\<close>

definition scan_record ::
  "runtime \<Rightarrow> string \<Rightarrow> vtype \<Rightarrow> nat option \<Rightarrow> dvalue option \<Rightarrow> json
     \<Rightarrow> error + dvalue option" where
  "scan_record rt key ty precision result record =
     ebind (py_get record ''key'') (\<lambda>key_value.
       if key_value = JStr key
       then ebind (py_get record ''value'') (\<lambda>data_raw.
              if data_raw \<noteq> JNull
              then ebind (convert rt ty precision data_raw) (\<lambda>r. Inr (Some r))
              else Inr result)
       else Inr result)"

fun scan_records ::
  "runtime \<Rightarrow> string \<Rightarrow> vtype \<Rightarrow> nat option \<Rightarrow> dvalue option \<Rightarrow> json list
     \<Rightarrow> error + dvalue option" where
  "scan_records rt key ty precision result [] = Inr result"
| "scan_records rt key ty precision result (record # data) =
     (case scan_record rt key ty precision result record of
        Inl e \<Rightarrow> Inl e
      | Inr result' \<Rightarrow> scan_records rt key ty precision result' data)"

text \<open>\<^verbatim>\<open>GinlongAPI._get_value_from_record\<close>.\<close>

definition get_value_from_record ::
  "runtime \<Rightarrow> json \<Rightarrow> string \<Rightarrow> vtype \<Rightarrow> nat option \<Rightarrow> error + dvalue option" where
  "get_value_from_record rt data key ty precision =
     ebind (py_iter data) (scan_records rt key ty precision None)"

text \<open>\<^verbatim>\<open>getattr(self, '_get_value' + INVERTER_DATA[subkey][0])\<close>.\<close>

fun get_value_method ::
  "payload_type \<Rightarrow> runtime \<Rightarrow> json \<Rightarrow> string \<Rightarrow> vtype \<Rightarrow> nat option
     \<Rightarrow> error + dvalue option" where
  "get_value_method VALUE_RECORD = get_value_from_record"
| "get_value_method VALUE_ELEMENT = get_value"

text \<open>The inner loop of \<^verbatim>\<open>GinlongAPI._collect_inverter_data\<close>, over the attributes of
  one section. Every raw key of the table is a string, so \<^verbatim>\<open>key is not None\<close> holds.\<close>

fun collect_attributes ::
  "runtime \<Rightarrow> payload_type \<Rightarrow> json \<Rightarrow> field_spec list \<Rightarrow> measurements
     \<Rightarrow> error + measurements" where
  "collect_attributes rt m jsondata [] d = Inr d"
| "collect_attributes rt m jsondata ((dictkey, key, ty, precision) # attributes) d =
     (case get_value_method m rt jsondata key ty precision of
        Inl e \<Rightarrow> Inl e
      | Inr None \<Rightarrow> collect_attributes rt m jsondata attributes d
      | Inr (Some v) \<Rightarrow> collect_attributes rt m jsondata attributes (dict_set d dictkey v))"

text \<open>The subtree of the payload that a section reads.\<close>

definition section_data :: "json \<Rightarrow> string \<Rightarrow> error + json" where
  "section_data payload subkey =
     ebind (py_getitem payload ''result'') (\<lambda>r.
     ebind (py_getitem r ''deviceWapper'') (\<lambda>jsondata.
       if subkey \<noteq> ''none'' then py_getitem jsondata subkey else Inr jsondata))"

text \<open>The outer loop, over the sections of the table.\<close>

fun collect_sections ::
  "runtime \<Rightarrow> json \<Rightarrow> (string \<times> payload_type \<times> field_spec list) list \<Rightarrow> measurements
     \<Rightarrow> error + measurements" where
  "collect_sections rt payload [] d = Inr d"
| "collect_sections rt payload ((subkey, m, attributes) # rest) d =
     (case section_data payload subkey of
        Inl e \<Rightarrow> Inl e
      | Inr jsondata \<Rightarrow>
          (case collect_attributes rt m jsondata attributes d of
             Inl e \<Rightarrow> Inl e
           | Inr d' \<Rightarrow> collect_sections rt payload rest d'))"

text \<open>\<^verbatim>\<open>GinlongAPI._collect_inverter_data\<close>, on the dict \<^verbatim>\<open>self._data\<close>.\<close>

definition collect_inverter_data :: "runtime \<Rightarrow> json \<Rightarrow> measurements \<Rightarrow> error + measurements" where
  "collect_inverter_data rt payload d = collect_sections rt payload INVERTER_DATA d"

section \<open>ginlong\_api: post-processing\<close>

text \<open>The first loop of \<^verbatim>\<open>GinlongAPI._purge_if_unused\<close>: False stands for the early
  return, on an element that is missing or differs from the value.\<close>

fun all_unused :: "measurements \<Rightarrow> rat \<Rightarrow> attribute list \<Rightarrow> bool" where
  "all_unused d v [] = True"
| "all_unused d v (element # elements) =
     (case dict_get d element of
        None \<Rightarrow> False
      | Some x \<Rightarrow> if \<not> dvalue_eq_num x v then False else all_unused d v elements)"

text \<open>The second loop: each element is popped.\<close>

fun pop_all :: "measurements \<Rightarrow> attribute list \<Rightarrow> error + measurements" where
  "pop_all d [] = Inr d"
| "pop_all d (element # elements) =
     (case dict_pop d element of Inl e \<Rightarrow> Inl e | Inr d' \<Rightarrow> pop_all d' elements)"

text \<open>\<^verbatim>\<open>GinlongAPI._purge_if_unused\<close>.\<close>

definition purge_if_unused :: "measurements \<Rightarrow> rat \<Rightarrow> attribute list \<Rightarrow> error + measurements" where
  "purge_if_unused d v elements = (if all_unused d v elements then pop_all d elements else Inr d)"

text \<open>\<^verbatim>\<open>self._data[k] = float(self._data[k])/1000\<close>, when the key is there.\<close>

definition fix_timestamp :: "runtime \<Rightarrow> measurements \<Rightarrow> attribute \<Rightarrow> error + measurements" where
  "fix_timestamp rt d k =
     (case dict_get d k of
        None \<Rightarrow> Inr d
      | Some x \<Rightarrow> ebind (dvalue_float rt x) (\<lambda>q. Inr (dict_set d k (VFloat (q / 1000)))))"

text \<open>\<^verbatim>\<open>GinlongAPI._post_process\<close>.\<close>

definition post_process :: "runtime \<Rightarrow> measurements \<Rightarrow> error + measurements" where
  "post_process rt d =
     (if d \<noteq> []
      then ebind (fix_timestamp rt d INVERTER_TIMESTAMP_ONLINE) (\<lambda>d1.
           ebind (fix_timestamp rt d1 INVERTER_TIMESTAMP_UPDATE) (\<lambda>d2.
           ebind (purge_if_unused d2 0 [PHASE1_CURRENT, PHASE1_VOLTAGE]) (\<lambda>d3.
           ebind (purge_if_unused d3 0 [PHASE2_CURRENT, PHASE2_VOLTAGE]) (\<lambda>d4.
           purge_if_unused d4 0 [PHASE3_CURRENT, PHASE3_VOLTAGE]))))
      else Inr d)"

section \<open>ginlong\_api: the session\<close>

text \<open>\<^verbatim>\<open>PortalConfig\<close>.\<close>

record portal_config =
  domain :: string
  username :: string
  password :: string
  plantid :: int

text \<open>
  A key of the dict of inverters, as Python hashes it: None, a str, or a number (True, 1
  and 1.0 are one key). A list or a dict cannot be a key.
\<close>

datatype key = KNone | KStr string | KNum rat

fun hash_key :: "json \<Rightarrow> error + key" where
  "hash_key JNull = Inr KNone"
| "hash_key (JStr s) = Inr (KStr s)"
| "hash_key (JInt n) = Inr (KNum (of_int n))"
| "hash_key (JFloat q) = Inr (KNum q)"
| "hash_key (JBool b) = Inr (KNum (if b then 1 else 0))"
| "hash_key _ = Inl TypeError"

text \<open>
  The fields of \<^verbatim>\<open>GinlongAPI\<close>: \<open>session\<close> tells whether \<^verbatim>\<open>self._session\<close> is a
  session (not None). \<^verbatim>\<open>self._data\<close> is bound to a new dict at the start of every
  fetch and read nowhere else: it is passed as a value. \<^verbatim>\<open>self._language\<close> is always 2.
\<close>

record ginlong_api =
  config :: portal_config
  session :: bool
  online :: bool
  inverter_list :: "(key \<times> json) list option"

section \<open>The world around the two modules\<close>

text \<open>A naive \<^verbatim>\<open>datetime\<close>, in microseconds.\<close>

type_synonym datetime = int

definition hour :: "datetime \<Rightarrow> int" where
  "hour t = (t div 3600000000) mod 24"

definition minutes :: "int \<Rightarrow> int" where
  "minutes n = n * 60000000"

definition hours :: "int \<Rightarrow> int" where
  "hours n = n * 3600000000"

datatype http_method = GET | POST

text \<open>
  What a run does that can be seen from outside, in order: an HTTP request sent, a read
  of the clock, a call of \<^verbatim>\<open>data_updated\<close> on a subscriber, the return of one
  \<^verbatim>\<open>fetch_inverter_data\<close> of the update loop (True when it returned data), and a call
  of \<^verbatim>\<open>schedule_update\<close>.
\<close>

datatype event =
    Http http_method string "(string \<times> json) list"
  | Now
  | DataUpdated nat dvalue "datetime option"
  | Fetched key bool
  | Schedule int

text \<open>What the session answers to a request: a response with its status and JSON body, a
  \<^verbatim>\<open>TimeoutError\<close> or \<^verbatim>\<open>ClientError\<close> (which the code catches), or another exception.\<close>

datatype transport = Response nat json | TransportError | Raises error

text \<open>
  The collaborators of the program. Each answer may depend on the number of events before
  it, so that the same question can be answered differently later in a run.
  \<open>do_update\<close> is the abstract method of \<^verbatim>\<open>ServiceSubscriber\<close>, for the subscriber
  with the given number.
\<close>

record world =
  py :: runtime
  http :: "nat \<Rightarrow> http_method \<Rightarrow> string \<Rightarrow> (string \<times> json) list \<Rightarrow> transport"
  clock :: "nat \<Rightarrow> datetime"
  do_update :: "nat \<Rightarrow> nat \<Rightarrow> dvalue \<Rightarrow> datetime option \<Rightarrow> error + bool"

text \<open>
  \<^verbatim>\<open>InverterService\<close> with its \<^verbatim>\<open>GinlongAPI\<close>, the store of the subscribers
  (\<open>measured\<close> is the field \<^verbatim>\<open>_measured\<close> of each subscriber object, so that one object
  subscribed twice has one timestamp), and the events so far.
\<close>

record service =
  last_updated :: "datetime option"
  logintime :: "datetime option"
  subscriptions :: "string \<Rightarrow> (attribute \<Rightarrow> nat option) option"
  api :: ginlong_api
  measured :: "nat \<Rightarrow> datetime option"
  events :: "event list"

definition SCHEDULE_OK :: int where "SCHEDULE_OK = 2"

definition SCHEDULE_NOK :: int where "SCHEDULE_NOK = 1"

text \<open>\<^verbatim>\<open>datetime.now()\<close>.\<close>

definition now :: "world \<Rightarrow> service \<Rightarrow> datetime \<times> service" where
  "now w s = (clock w (length (events s)), s\<lparr>events := events s @ [Now]\<rparr>)"

text \<open>
  \<^verbatim>\<open>GinlongAPI._get_data\<close> and \<^verbatim>\<open>_post_data\<close>. Of the result dict the callers read
  \<^verbatim>\<open>SUCCESS\<close> and, when it is True, \<^verbatim>\<open>CONTENT\<close>: the result is \<open>Some content\<close>
  when \<^verbatim>\<open>SUCCESS\<close> is True and \<open>None\<close> otherwise.
\<close>

definition request ::
  "world \<Rightarrow> http_method \<Rightarrow> string \<Rightarrow> (string \<times> json) list \<Rightarrow> service
     \<Rightarrow> (error + json option) \<times> service" where
  "request w m url params s =
     (if \<not> session (api s) then (Inr None, s)
      else let s' = s\<lparr>events := events s @ [Http m url params]\<rparr>
           in case http w (length (events s)) m url params of
                Response status content \<Rightarrow>
                  (Inr (if status = 200 then Some content else None), s')
              | TransportError \<Rightarrow> (Inr None, s')
              | Raises e \<Rightarrow> (Inl e, s'))"

definition get_data ::
  "world \<Rightarrow> string \<Rightarrow> (string \<times> json) list \<Rightarrow> service \<Rightarrow> (error + json option) \<times> service" where
  "get_data w url params s = request w GET url params s"

definition post_data ::
  "world \<Rightarrow> string \<Rightarrow> (string \<times> json) list \<Rightarrow> service \<Rightarrow> (error + json option) \<times> service" where
  "post_data w url params s = request w POST url params s"

definition set_online :: "bool \<Rightarrow> service \<Rightarrow> service" where
  "set_online b s = s\<lparr>api := (api s)\<lparr>online := b\<rparr>\<rparr>"

text \<open>The loop of \<^verbatim>\<open>GinlongAPI.fetch_inverter_list\<close>.\<close>

fun collect_device_ids :: "json list \<Rightarrow> (key \<times> json) list \<Rightarrow> error + (key \<times> json) list" where
  "collect_device_ids [] device_ids = Inr device_ids"
| "collect_device_ids (record # records) device_ids =
     (case py_get record ''sn'' of
        Inl e \<Rightarrow> Inl e
      | Inr serial \<Rightarrow>
          (case py_get record ''deviceId'' of
             Inl e \<Rightarrow> Inl e
           | Inr device_id \<Rightarrow>
               (case hash_key serial of
                  Inl e \<Rightarrow> Inl e
                | Inr k \<Rightarrow> collect_device_ids records (dict_set device_ids k device_id))))"

text \<open>\<^verbatim>\<open>GinlongAPI.fetch_inverter_list\<close>.\<close>

definition fetch_inverter_list ::
  "world \<Rightarrow> int \<Rightarrow> service \<Rightarrow> (error + (key \<times> json) list option) \<times> service" where
  "fetch_inverter_list w plant_id s =
     (let url = ''http://'' @ domain (config (api s)) @ ''/cpro/epc/plantDevice/inverterListAjax.json'';
          params = [(''orderBy'', JStr ''updateDate''), (''orderType'', JInt 2),
                    (''pageIndex'', JInt 1), (''plantId'', JInt plant_id),
                    (''sequenceNum'', JInt 9), (''showAddFlg'', JInt 1)]
      in case get_data w url params s of
           (Inl e, s1) \<Rightarrow> (Inl e, s1)
         | (Inr None, s1) \<Rightarrow> (Inr None, set_online False s1)
         | (Inr (Some result_json), s1) \<Rightarrow>
             (case ebind (py_getitem result_json ''result'') (\<lambda>r.
                   ebind (py_getitem r ''paginationAjax'') (\<lambda>p.
                   ebind (py_getitem p ''data'') (\<lambda>records.
                   ebind (py_iter records) (\<lambda>rs. collect_device_ids rs [])))) of
                Inl e \<Rightarrow> (Inl e, s1)
              | Inr device_ids \<Rightarrow> (Inr (Some device_ids), s1)))"

text \<open>\<^verbatim>\<open>GinlongAPI.login\<close>: a KeyError raised inside the \<^verbatim>\<open>try\<close>, also by
  \<^verbatim>\<open>fetch_inverter_list\<close>, is caught; any other exception leaves the method.\<close>

definition login :: "world \<Rightarrow> service \<Rightarrow> (error + bool) \<times> service" where
  "login w s0 =
     (let s = s0\<lparr>api := (api s0)\<lparr>session := True, inverter_list := None\<rparr>\<rparr>;
          cfg = config (api s);
          url = ''https://'' @ domain cfg @ ''/cpro/login/validateLogin.json'';
          params = [(''userName'', JStr (username cfg)), (''password'', JStr (password cfg)),
                    (''lan'', JInt 2), (''domain'', JStr (domain cfg)), (''userType'', JStr ''C'')]
      in case post_data w url params s of
           (Inl e, s1) \<Rightarrow> (Inl e, s1)
         | (Inr None, s1) \<Rightarrow> (Inr False, set_online False s1)
         | (Inr (Some result_json), s1) \<Rightarrow>
             (case ebind (py_getitem result_json ''result'') (\<lambda>r. py_get r ''isAccept'') of
                Inl e \<Rightarrow> if e = KeyError then (Inr False, set_online False s1) else (Inl e, s1)
              | Inr accept \<Rightarrow>
                  if json_eq_num accept 1
                  then (case fetch_inverter_list w (plantid cfg) (set_online True s1) of
                          (Inl e, s2) \<Rightarrow>
                            if e = KeyError then (Inr False, set_online False s2) else (Inl e, s2)
                        | (Inr device_ids, s2) \<Rightarrow>
                            (Inr (online (api s2)),
                             s2\<lparr>api := (api s2)\<lparr>inverter_list := device_ids\<rparr>\<rparr>))
                  else (Inr (online (api s1)), s1)))"

text \<open>\<^verbatim>\<open>GinlongAPI.logout\<close>.\<close>

definition logout :: "service \<Rightarrow> service" where
  "logout s = s\<lparr>api := (api s)\<lparr>session := False, online := False, inverter_list := None\<rparr>\<rparr>"

text \<open>\<^verbatim>\<open>GinlongAPI._get_inverter_details\<close>: \<open>JNull\<close> is the result None.\<close>

definition get_inverter_details :: "world \<Rightarrow> json \<Rightarrow> service \<Rightarrow> (error + json) \<times> service" where
  "get_inverter_details w device_id s =
     (let url = ''http://'' @ domain (config (api s)) @ ''/cpro/device/inverter/goDetailAjax.json'';
          params = [(''deviceId'', device_id)]
      in case get_data w url params s of
           (Inl e, s1) \<Rightarrow> (Inl e, s1)
         | (Inr None, s1) \<Rightarrow> (Inr JNull, s1)
         | (Inr (Some content), s1) \<Rightarrow> (Inr content, s1))"

text \<open>\<^verbatim>\<open>GinlongAPI.fetch_inverter_data\<close>: \<open>None\<close> is the result None, \<open>Some d\<close> a
  \<^verbatim>\<open>GinlongData\<close> with the dict \<open>d\<close>.\<close>

definition fetch_inverter_data ::
  "world \<Rightarrow> key \<Rightarrow> service \<Rightarrow> (error + measurements option) \<times> service" where
  "fetch_inverter_data w inverter_serial s =
     (if online (api s)
      then (case inverter_list (api s) of
              None \<Rightarrow> (Inr None, s)
            | Some l \<Rightarrow>
                (case map_of l inverter_serial of
                   None \<Rightarrow> (Inr None, s)
                 | Some device_id \<Rightarrow>
                     (case get_inverter_details w device_id s of
                        (Inl e, s1) \<Rightarrow> (Inl e, s1)
                      | (Inr payload, s1) \<Rightarrow>
                          if payload \<noteq> JNull
                          then (case ebind (collect_inverter_data (py w) payload [])
                                        (post_process (py w)) of
                                  Inl e \<Rightarrow> (Inl e, s1)
                                | Inr d \<Rightarrow> (Inr (Some d), s1))
                          else (Inr None, s1))))
      else (Inr None, s))"

section \<open>service: subscribers and dispatch\<close>

text \<open>\<^verbatim>\<open>InverterService.__init__\<close>, with subscribers that have not been updated.\<close>

definition initial_service :: "portal_config \<Rightarrow> service" where
  "initial_service cfg =
     \<lparr>last_updated = None, logintime = None, subscriptions = (\<lambda>serial. None),
      api = \<lparr>config = cfg, session = False, online = False, inverter_list = None\<rparr>,
      measured = (\<lambda>subscriber. None), events = []\<rparr>"

text \<open>\<^verbatim>\<open>InverterService.subscribe\<close>.\<close>

definition subscribe :: "nat \<Rightarrow> string \<Rightarrow> attribute \<Rightarrow> service \<Rightarrow> service" where
  "subscribe subscriber serial attribute s =
     (let m = (case subscriptions s serial of None \<Rightarrow> (\<lambda>a. None) | Some m \<Rightarrow> m)
      in s\<lparr>subscriptions := (subscriptions s)(serial \<mapsto> m(attribute \<mapsto> subscriber))\<rparr>)"

text \<open>\<^verbatim>\<open>self._subscriptions[serial][attribute]\<close>, with the KeyError of either lookup.\<close>

definition subscriber_of :: "service \<Rightarrow> string \<Rightarrow> attribute \<Rightarrow> error + nat" where
  "subscriber_of s serial attribute =
     (case subscriptions s serial of
        None \<Rightarrow> Inl KeyError
      | Some m \<Rightarrow> (case m attribute of None \<Rightarrow> Inl KeyError | Some subscriber \<Rightarrow> Inr subscriber))"

text \<open>\<^verbatim>\<open>ServiceSubscriber.data_updated\<close>.\<close>

definition data_updated ::
  "world \<Rightarrow> nat \<Rightarrow> dvalue \<Rightarrow> datetime option \<Rightarrow> service \<Rightarrow> (error + unit) \<times> service" where
  "data_updated w subscriber value updated s0 =
     (let s = s0\<lparr>events := events s0 @ [DataUpdated subscriber value updated]\<rparr>
      in if measured s subscriber \<noteq> updated
         then (case do_update w (length (events s0)) subscriber value updated of
                 Inl e \<Rightarrow> (Inl e, s)
               | Inr accepted \<Rightarrow>
                   if accepted then (Inr (), s\<lparr>measured := (measured s)(subscriber := updated)\<rparr>)
                   else (Inr (), s))
         else (Inr (), s))"

text \<open>Lines 137 to 147 of \<^verbatim>\<open>InverterService.update_devices\<close>: the value of the
  daily energy that is passed on.\<close>

definition energy_today_value ::
  "world \<Rightarrow> measurements \<Rightarrow> string \<Rightarrow> dvalue \<Rightarrow> service \<Rightarrow> (error + dvalue) \<times> service" where
  "energy_today_value w data serial value s =
     (let (t, s1) = now w s; is_am = (hour t < 12)
      in case getattr data INVERTER_STATE of
           Inl e \<Rightarrow> (Inl e, s1)
         | Inr state \<Rightarrow>
             if dvalue_eq_num state 2 \<and> is_am then (Inr (VInt 0), s1)
             else if dvalue_eq_num state 1 \<and> is_am
             then (case subscriber_of s1 serial INVERTER_STATE of
                     Inl e \<Rightarrow> (Inl e, s1)
                   | Inr subscriber \<Rightarrow>
                       (case measured s1 subscriber of
                          None \<Rightarrow> (Inr value, s1)
                        | Some last_updated_state \<Rightarrow>
                            let (t2, s2) = now w s1
                            in if last_updated_state + minutes 10 < t2 then (Inr (VInt 0), s2)
                               else (Inr value, s2)))
             else (Inr value, s1))"

text \<open>The loop of \<^verbatim>\<open>InverterService.update_devices\<close> over \<^verbatim>\<open>data.keys()\<close>.\<close>

fun dispatch ::
  "world \<Rightarrow> measurements \<Rightarrow> string \<Rightarrow> attribute list \<Rightarrow> service \<Rightarrow> (error + unit) \<times> service" where
  "dispatch w data serial [] s = (Inr (), s)"
| "dispatch w data serial (attribute # rest) s =
     (case subscriber_of s serial attribute of
        Inl e \<Rightarrow> dispatch w data serial rest s
      | Inr subscriber \<Rightarrow>
          (case getattr data attribute of
             Inl e \<Rightarrow> (Inl e, s)
           | Inr value \<Rightarrow>
               (case (if attribute = INVERTER_ENERGY_TODAY
                      then energy_today_value w data serial value s
                      else (Inr value, s)) of
                  (Inl e, s1) \<Rightarrow> (Inl e, s1)
                | (Inr value', s1) \<Rightarrow>
                    (case data_updated w subscriber value' (last_updated s1) s1 of
                       (Inl e, s2) \<Rightarrow> (Inl e, s2)
                     | (Inr u, s2) \<Rightarrow> dispatch w data serial rest s2))))"

text \<open>\<^verbatim>\<open>InverterService.update_devices\<close>. The keys of \<^verbatim>\<open>_subscriptions\<close> are strings,
  so a serial that is not a str is not among them.\<close>

definition update_devices :: "world \<Rightarrow> measurements \<Rightarrow> service \<Rightarrow> (error + unit) \<times> service" where
  "update_devices w data s =
     (case getattr data INVERTER_SERIAL of
        Inl e \<Rightarrow> (Inl e, s)
      | Inr (VStr serial) \<Rightarrow>
          (case subscriptions s serial of
             None \<Rightarrow> (Inr (), s)
           | Some m \<Rightarrow>
               (case keys data of
                  Inl e \<Rightarrow> (Inl e, s)
                | Inr ks \<Rightarrow> dispatch w data serial ks s))
      | Inr other \<Rightarrow> (Inr (), s))"

section \<open>service: the update cycle\<close>

text \<open>\<^verbatim>\<open>InverterService._login\<close>.\<close>

definition service_login :: "world \<Rightarrow> service \<Rightarrow> (error + bool) \<times> service" where
  "service_login w s =
     (if \<not> online (api s)
      then (case login w s of
              (Inl e, s1) \<Rightarrow> (Inl e, s1)
            | (Inr ok, s1) \<Rightarrow>
                if ok then (let (t, s2) = now w s1
                            in (Inr (online (api s2)), s2\<lparr>logintime := Some t\<rparr>))
                else (Inr (online (api s1)), s1))
      else (Inr (online (api s)), s))"

text \<open>\<^verbatim>\<open>InverterService._logout\<close>.\<close>

definition service_logout :: "service \<Rightarrow> service" where
  "service_logout s = (logout s)\<lparr>logintime := None\<rparr>"

text \<open>\<^verbatim>\<open>InverterService.schedule_update\<close>: the request for the next tick.\<close>

definition schedule_update :: "int \<Rightarrow> service \<Rightarrow> service" where
  "schedule_update minute s = s\<lparr>events := events s @ [Schedule minute]\<rparr>"

text \<open>The loop of \<^verbatim>\<open>InverterService.async_update\<close> over the inverters. The local
  \<^verbatim>\<open>inverters\<close> still is the dict that was read before the loop when a logout has set
  \<^verbatim>\<open>_inverter_list\<close> to None.\<close>

fun fetch_all :: "world \<Rightarrow> key list \<Rightarrow> int \<Rightarrow> service \<Rightarrow> (error + int) \<times> service" where
  "fetch_all w [] update s = (Inr update, s)"
| "fetch_all w (inverter_serial # rest) update s =
     (case fetch_inverter_data w inverter_serial s of
        (Inl e, s1) \<Rightarrow> (Inl e, s1)
      | (Inr (Some data), s1) \<Rightarrow>
          (let s2 = s1\<lparr>events := events s1 @ [Fetched inverter_serial True]\<rparr>;
               (t, s3) = now w s2;
               s4 = s3\<lparr>last_updated := Some t\<rparr>
           in case update_devices w data s4 of
                (Inl e, s5) \<Rightarrow> (Inl e, s5)
              | (Inr u, s5) \<Rightarrow> fetch_all w rest SCHEDULE_OK s5)
      | (Inr None, s1) \<Rightarrow>
          fetch_all w rest SCHEDULE_NOK
            (service_logout (s1\<lparr>events := events s1 @ [Fetched inverter_serial False]\<rparr>)))"

text \<open>Lines 171 to 178 of \<^verbatim>\<open>InverterService.async_update\<close>.\<close>

definition finish_update :: "world \<Rightarrow> int \<Rightarrow> service \<Rightarrow> (error + int) \<times> service" where
  "finish_update w update s =
     (let s1 = schedule_update update s
      in case logintime s1 of
           None \<Rightarrow> (Inr update, s1)
         | Some t0 \<Rightarrow>
             (let (t, s2) = now w s1
              in if t0 + hours 2 < t then (Inr update, service_logout s2)
                 else (Inr update, s2)))"

text \<open>\<^verbatim>\<open>InverterService.async_update\<close>.\<close>

definition async_update :: "world \<Rightarrow> service \<Rightarrow> (error + int) \<times> service" where
  "async_update w s =
     (case service_login w s of
        (Inl e, s1) \<Rightarrow> (Inl e, s1)
      | (Inr ok, s1) \<Rightarrow>
          if ok
          then (case inverter_list (api s1) of
                  None \<Rightarrow> (Inr SCHEDULE_NOK, s1)
                | Some inverters \<Rightarrow>
                    (case fetch_all w (map fst inverters) SCHEDULE_NOK s1 of
                       (Inl e, s2) \<Rightarrow> (Inl e, s2)
                     | (Inr update, s2) \<Rightarrow> finish_update w update s2))
          else finish_update w SCHEDULE_NOK s1)"

section \<open>A runtime for the examples\<close>

text \<open>
  The examples need one concrete runtime. It reads decimal literals (an optional sign,
  digits, for a float an optional point), which Python reads the same way; on the other
  strings that Python accepts (surrounding blanks, underscores, exponents) it differs, and
  no example uses one. \<^verbatim>\<open>str\<close> of a value that is not a str occurs in no example.
\<close>

definition digit_of :: "char \<Rightarrow> nat option" where
  "digit_of c = (let n = (of_char c :: nat) in if 48 \<le> n \<and> n \<le> 57 then Some (n - 48) else None)"

fun digits_value :: "nat \<Rightarrow> string \<Rightarrow> nat option" where
  "digits_value acc [] = Some acc"
| "digits_value acc (c # cs) =
     (case digit_of c of None \<Rightarrow> None | Some k \<Rightarrow> digits_value (10 * acc + k) cs)"

definition decimal_nat :: "string \<Rightarrow> nat option" where
  "decimal_nat s = (if s = [] then None else digits_value 0 s)"

definition decimal_int :: "string \<Rightarrow> int option" where
  "decimal_int s =
     (case s of
        [] \<Rightarrow> None
      | c # cs \<Rightarrow>
          if c = CHR ''-'' then map_option (\<lambda>n. - int n) (decimal_nat cs)
          else if c = CHR ''+'' then map_option int (decimal_nat cs)
          else map_option int (decimal_nat s))"

definition decimal_fraction :: "string \<Rightarrow> rat option" where
  "decimal_fraction s =
     (let a = takeWhile (\<lambda>c. c \<noteq> CHR ''.'') s; b = drop (Suc (length a)) s
      in if a = [] \<and> b = [] then None
         else case (digits_value 0 a, digits_value 0 b) of
                (Some x, Some y) \<Rightarrow> Some (of_nat x + of_nat y / 10 ^ length b)
              | _ \<Rightarrow> None)"

definition decimal_rat :: "string \<Rightarrow> rat option" where
  "decimal_rat s =
     (case s of
        [] \<Rightarrow> None
      | c # cs \<Rightarrow>
          if c = CHR ''-'' then map_option uminus (decimal_fraction cs)
          else if c = CHR ''+'' then decimal_fraction cs
          else decimal_fraction s)"

definition example_runtime :: runtime where
  "example_runtime = \<lparr>str_of = (\<lambda>x. ''?''), int_of_str = decimal_int, float_of_str = decimal_rat\<rparr>"

section \<open>ginlong\_api: properties of measurement sets\<close>

lemma ebind_Inr_iff: "ebind m f = Inr y \<longleftrightarrow> (\<exists>x. m = Inr x \<and> f x = Inr y)"
  by (cases m) auto

lemma ebind_Inl_iff: "ebind m f = Inl e \<longleftrightarrow> m = Inl e \<or> (\<exists>x. m = Inr x \<and> f x = Inl e)"
  by (cases m) auto

lemmas example_runtime_simps =
  example_runtime_def decimal_int_def decimal_nat_def decimal_rat_def decimal_fraction_def digit_of_def

lemma dict_get_dict_set:
  "dict_get (dict_set d k v) k' = (if k' = k then Some v else dict_get d k')"
  by (induction d) (auto simp: dict_get_def)

lemma dict_contains_iff: "dict_contains d k \<longleftrightarrow> dict_get d k \<noteq> None"
  by (simp add: dict_contains_def dict_get_def map_of_eq_None_iff)

lemma map_of_filter_key:
  "map_of (filter (\<lambda>p. fst p \<noteq> k) d) k' = (if k' = k then None else map_of d k')"
  by (induction d) auto

lemma dict_get_pop:
  "dict_pop d k = Inr d' \<Longrightarrow> dict_get d' k' = (if k' = k then None else dict_get d k')"
  by (auto simp: dict_pop_def dict_get_def map_of_filter_key split: if_splits)

lemma keys_dict_set: "set (map fst (dict_set d k v)) = insert k (set (map fst d))"
  by (induction d) auto

lemma distinct_dict_set: "distinct (map fst d) \<Longrightarrow> distinct (map fst (dict_set d k v))"
  by (induction d) (auto simp: keys_dict_set[simplified])

definition timestamp_example :: measurements where
  "timestamp_example = [(INVERTER_TIMESTAMP_UPDATE, VInt 1700000000000), (INVERTER_STATE, VInt 1)]"

text \<open>
  Claim C5. For a measurement set that contains the state attribute, \<^verbatim>\<open>keys()\<close> returns
  a list whose first element is the state attribute; the rest of the list holds every other
  attribute of the set exactly once, and not the state. The keys of a dict are distinct,
  and so are those of every set that a fetch returns (\<open>fetch_inverter_data_distinct\<close>
  below).
\<close>

theorem keys_state_first:
  assumes "distinct (map fst d)" and "dict_contains d INVERTER_STATE"
  shows "\<exists>rest. keys d = Inr (INVERTER_STATE # rest) \<and> INVERTER_STATE \<notin> set rest
           \<and> distinct rest \<and> set rest = set (map fst d) - {INVERTER_STATE}"
  using assms by (simp add: keys_def dict_contains_def Let_def)

theorem keys_state_first_witness:
  "\<exists>rest. keys timestamp_example = Inr (INVERTER_STATE # rest) \<and> INVERTER_STATE \<notin> set rest
           \<and> distinct rest \<and> set rest = {INVERTER_TIMESTAMP_UPDATE}"
  using keys_state_first[of timestamp_example]
  by (auto simp: timestamp_example_def dict_contains_def)

section \<open>ginlong\_api: the record scan\<close>

text \<open>The claim's reading of the scan: the value of the last record whose key is the raw
  key, and no value when no record has that key.\<close>

definition last_match_value ::
  "runtime \<Rightarrow> json list \<Rightarrow> string \<Rightarrow> vtype \<Rightarrow> nat option \<Rightarrow> error + dvalue option" where
  "last_match_value rt data key ty precision =
     (case filter (\<lambda>record. py_get record ''key'' = Inr (JStr key)) data of
        [] \<Rightarrow> Inr None
      | ms \<Rightarrow> get_value rt (last ms) ''value'' ty precision)"

text \<open>What the scan does: a record counts when it has the key and a value that is not
  None.\<close>

definition valued_match :: "string \<Rightarrow> json \<Rightarrow> bool" where
  "valued_match key record \<longleftrightarrow>
     py_get record ''key'' = Inr (JStr key) \<and> py_get record ''value'' \<noteq> Inr JNull"

definition last_valued_match :: "json list \<Rightarrow> string \<Rightarrow> json option" where
  "last_valued_match data key =
     (case filter (valued_match key) data of [] \<Rightarrow> None | ms \<Rightarrow> Some (last ms))"

definition is_dict :: "json \<Rightarrow> bool" where
  "is_dict x = (case x of JObj kvs \<Rightarrow> True | _ \<Rightarrow> False)"

definition convertible :: "runtime \<Rightarrow> vtype \<Rightarrow> nat option \<Rightarrow> json \<Rightarrow> bool" where
  "convertible rt ty precision record =
     (case get_value rt record ''value'' ty precision of Inl e \<Rightarrow> False | Inr r \<Rightarrow> True)"

lemma scan_record_skip:
  "is_dict record \<Longrightarrow> \<not> valued_match key record \<Longrightarrow>
   scan_record rt key ty precision result record = Inr result"
  by (cases "record") (auto simp: scan_record_def valued_match_def is_dict_def)

lemma scan_record_hit:
  "valued_match key record \<Longrightarrow> is_dict record \<Longrightarrow>
   scan_record rt key ty precision result record = get_value rt record ''value'' ty precision"
  by (cases "record") (auto simp: scan_record_def valued_match_def get_value_def is_dict_def)

lemma scan_records_last:
  assumes "\<forall>record\<in>set data. is_dict record"
    and "\<forall>record\<in>set data. valued_match key record \<longrightarrow> convertible rt ty precision record"
  shows "scan_records rt key ty precision result data =
           (case filter (valued_match key) data of
              [] \<Rightarrow> Inr result
            | ms \<Rightarrow> get_value rt (last ms) ''value'' ty precision)"
  using assms
proof (induction data arbitrary: result)
  case Nil
  then show ?case by simp
next
  case (Cons x data)
  show ?case
  proof (cases "valued_match key x")
    case False
    with Cons show ?thesis by (simp add: scan_record_skip)
  next
    case True
    with Cons.prems obtain r where r: "get_value rt x ''value'' ty precision = Inr r"
      by (auto simp: convertible_def split: sum.splits)
    have "scan_records rt key ty precision r data =
           (case filter (valued_match key) data of
              [] \<Rightarrow> Inr r
            | ms \<Rightarrow> get_value rt (last ms) ''value'' ty precision)"
      using Cons.prems by (intro Cons.IH) auto
    with True r Cons.prems show ?thesis
      by (auto simp: scan_record_hit split: list.splits)
  qed
qed

definition duplicate_records :: "json list" where
  "duplicate_records =
     [JObj [(''key'', JStr ''1fd''), (''value'', JStr ''1'')],
      JObj [(''key'', JStr ''1fd''), (''value'', JStr ''2'')]]"

definition unvalued_last_records :: "json list" where
  "unvalued_last_records =
     [JObj [(''key'', JStr ''1fd''), (''value'', JStr ''1'')],
      JObj [(''key'', JStr ''1fd''), (''value'', JNull)]]"

text \<open>
  Claim C6, as stated, fails: when the last record with the key has no value, the scan
  returns the value of an earlier record, where the claim's reading gives no value.
\<close>

theorem last_match_counterexample:
  "get_value_from_record example_runtime (JList unvalued_last_records) ''1fd'' TInt None
     = Inr (Some (VInt 1))
   \<and> last_match_value example_runtime unvalued_last_records ''1fd'' TInt None = Inr None"
  by (simp add: get_value_from_record_def scan_record_def last_match_value_def get_value_def
      unvalued_last_records_def example_runtime_simps)

text \<open>
  Claim C6, amended. On a list of records (dicts) in which every record that has the key
  and a value converts to the declared type, the scan returns the converted value of the
  last record that has the key and a value, and no value when there is no such record.
\<close>

theorem get_value_from_record_last_valued_match:
  assumes "\<forall>record\<in>set data. is_dict record"
    and "\<forall>record\<in>set data. valued_match key record \<longrightarrow> convertible rt ty precision record"
  shows "get_value_from_record rt (JList data) key ty precision =
           (case last_valued_match data key of
              None \<Rightarrow> Inr None
            | Some record \<Rightarrow> get_value rt record ''value'' ty precision)"
  using scan_records_last[OF assms, of None]
  by (simp add: get_value_from_record_def last_valued_match_def split: list.splits)

theorem get_value_from_record_last_valued_match_witness:
  "get_value_from_record example_runtime (JList duplicate_records) ''1fd'' TInt None
     = Inr (Some (VInt 2))"
  using get_value_from_record_last_valued_match
          [of duplicate_records "''1fd''" example_runtime TInt None]
  by (simp add: duplicate_records_def is_dict_def valued_match_def convertible_def
      last_valued_match_def get_value_def example_runtime_simps)

section \<open>ginlong\_api: properties of post-processing\<close>

definition both_zero :: "measurements \<Rightarrow> attribute \<Rightarrow> attribute \<Rightarrow> bool" where
  "both_zero d c v =
     (case (dict_get d c, dict_get d v) of
        (Some x, Some y) \<Rightarrow> dvalue_eq_num x 0 \<and> dvalue_eq_num y 0
      | _ \<Rightarrow> False)"

definition phase_groups :: "(attribute \<times> attribute) list" where
  "phase_groups =
     [(PHASE1_CURRENT, PHASE1_VOLTAGE), (PHASE2_CURRENT, PHASE2_VOLTAGE),
      (PHASE3_CURRENT, PHASE3_VOLTAGE)]"

definition float_ok :: "runtime \<Rightarrow> measurements \<Rightarrow> attribute \<Rightarrow> bool" where
  "float_ok rt d k =
     (case dict_get d k of
        None \<Rightarrow> True
      | Some x \<Rightarrow> (case dvalue_float rt x of Inl e \<Rightarrow> False | Inr q \<Rightarrow> True))"

definition timestamps_convert :: "runtime \<Rightarrow> measurements \<Rightarrow> bool" where
  "timestamps_convert rt d \<longleftrightarrow>
     float_ok rt d INVERTER_TIMESTAMP_ONLINE \<and> float_ok rt d INVERTER_TIMESTAMP_UPDATE"


lemma fix_timestamp_get:
  "fix_timestamp rt d k = Inr d1 \<Longrightarrow> k' \<noteq> k \<Longrightarrow> dict_get d1 k' = dict_get d k'"
  by (auto simp: fix_timestamp_def dict_get_dict_set ebind_Inr_iff split: option.splits)


lemma fix_timestamp_returns:
  "float_ok rt d k \<Longrightarrow> \<exists>d1. fix_timestamp rt d k = Inr d1"
  by (auto simp: fix_timestamp_def float_ok_def split: option.splits sum.splits)

lemma all_unused_pair:
  "all_unused d 0 [c, v] = both_zero d c v"
  by (auto simp: both_zero_def split: option.splits)

lemma purge_pair_returns:
  "c \<noteq> v \<Longrightarrow> \<exists>d'. purge_if_unused d 0 [c, v] = Inr d'"
  by (auto simp: purge_if_unused_def all_unused_pair both_zero_def dict_pop_def dict_contains_iff
        dict_get_def map_of_filter_key split: option.splits)

lemma pop_all_pair_get:
  assumes "pop_all d [c, v] = Inr d'"
  shows "dict_get d' k = (if k = c \<or> k = v then None else dict_get d k)"
proof -
  from assms obtain d1 where d1: "dict_pop d c = Inr d1" and d': "dict_pop d1 v = Inr d'"
    by (auto split: sum.splits)
  show ?thesis
    by (simp add: dict_get_pop[OF d'] dict_get_pop[OF d1])
qed

lemma purge_pair_get:
  assumes "purge_if_unused d 0 [c, v] = Inr d'"
  shows "dict_get d' k =
           (if both_zero d c v \<and> (k = c \<or> k = v) then None else dict_get d k)"
proof (cases "both_zero d c v")
  case True
  with assms have "pop_all d [c, v] = Inr d'"
    by (simp add: purge_if_unused_def all_unused_pair del: all_unused.simps pop_all.simps)
  from pop_all_pair_get[OF this] True show ?thesis by simp
next
  case False
  with assms have "d' = d"
    by (simp add: purge_if_unused_def all_unused_pair del: all_unused.simps pop_all.simps)
  with False show ?thesis by simp
qed

lemma post_process_steps:
  assumes "post_process rt d = Inr d'" and "d \<noteq> []"
  obtains d1 d2 d3 d4 where
    "fix_timestamp rt d INVERTER_TIMESTAMP_ONLINE = Inr d1"
    "fix_timestamp rt d1 INVERTER_TIMESTAMP_UPDATE = Inr d2"
    "purge_if_unused d2 0 [PHASE1_CURRENT, PHASE1_VOLTAGE] = Inr d3"
    "purge_if_unused d3 0 [PHASE2_CURRENT, PHASE2_VOLTAGE] = Inr d4"
    "purge_if_unused d4 0 [PHASE3_CURRENT, PHASE3_VOLTAGE] = Inr d'"
  using assms by (auto simp: post_process_def ebind_Inr_iff)

lemma post_process_returns:
  assumes "timestamps_convert rt d"
  shows "\<exists>d'. post_process rt d = Inr d'"
proof (cases "d = []")
  case True
  then show ?thesis by (simp add: post_process_def)
next
  case False
  from assms have "float_ok rt d INVERTER_TIMESTAMP_ONLINE"
    by (simp add: timestamps_convert_def)
  then obtain d1 where d1: "fix_timestamp rt d INVERTER_TIMESTAMP_ONLINE = Inr d1"
    using fix_timestamp_returns by blast
  have "float_ok rt d1 INVERTER_TIMESTAMP_UPDATE"
    using assms fix_timestamp_get[OF d1, of INVERTER_TIMESTAMP_UPDATE]
    by (simp add: timestamps_convert_def float_ok_def)
  then obtain d2 where d2: "fix_timestamp rt d1 INVERTER_TIMESTAMP_UPDATE = Inr d2"
    using fix_timestamp_returns by blast
  obtain d3 where d3: "purge_if_unused d2 0 [PHASE1_CURRENT, PHASE1_VOLTAGE] = Inr d3"
    using purge_pair_returns[of PHASE1_CURRENT PHASE1_VOLTAGE d2] by auto
  obtain d4 where d4: "purge_if_unused d3 0 [PHASE2_CURRENT, PHASE2_VOLTAGE] = Inr d4"
    using purge_pair_returns[of PHASE2_CURRENT PHASE2_VOLTAGE d3] by auto
  obtain d5 where d5: "purge_if_unused d4 0 [PHASE3_CURRENT, PHASE3_VOLTAGE] = Inr d5"
    using purge_pair_returns[of PHASE3_CURRENT PHASE3_VOLTAGE d4] by auto
  from False d1 d2 d3 d4 d5 show ?thesis
    by (simp add: post_process_def del: all_unused.simps pop_all.simps)
qed

lemma post_process_phase:
  assumes pp: "post_process rt d = Inr d'"
    and grp: "(c, v) \<in> set phase_groups"
    and k: "k = c \<or> k = v"
  shows "dict_get d' k = (if both_zero d c v then None else dict_get d k)"
proof (cases "d = []")
  case True
  with pp show ?thesis by (simp add: post_process_def both_zero_def dict_get_def)
next
  case False
  from pp False obtain d1 d2 d3 d4 where
    s1: "fix_timestamp rt d INVERTER_TIMESTAMP_ONLINE = Inr d1" and
    s2: "fix_timestamp rt d1 INVERTER_TIMESTAMP_UPDATE = Inr d2" and
    s3: "purge_if_unused d2 0 [PHASE1_CURRENT, PHASE1_VOLTAGE] = Inr d3" and
    s4: "purge_if_unused d3 0 [PHASE2_CURRENT, PHASE2_VOLTAGE] = Inr d4" and
    s5: "purge_if_unused d4 0 [PHASE3_CURRENT, PHASE3_VOLTAGE] = Inr d'"
    by (rule post_process_steps)
  have g2: "dict_get d2 a = dict_get d a"
    if "a \<noteq> INVERTER_TIMESTAMP_ONLINE" "a \<noteq> INVERTER_TIMESTAMP_UPDATE" for a
    using that fix_timestamp_get[OF s1, of a] fix_timestamp_get[OF s2, of a] by simp
  note g3 = purge_pair_get[OF s3] and g4 = purge_pair_get[OF s4] and g5 = purge_pair_get[OF s5]
  have b1: "both_zero d2 PHASE1_CURRENT PHASE1_VOLTAGE = both_zero d PHASE1_CURRENT PHASE1_VOLTAGE"
    by (simp add: both_zero_def g2)
  have b2: "both_zero d3 PHASE2_CURRENT PHASE2_VOLTAGE = both_zero d PHASE2_CURRENT PHASE2_VOLTAGE"
    by (simp add: both_zero_def g2 g3)
  have b3: "both_zero d4 PHASE3_CURRENT PHASE3_VOLTAGE = both_zero d PHASE3_CURRENT PHASE3_VOLTAGE"
    by (simp add: both_zero_def g2 g3 g4)
  from grp k show ?thesis
    by (auto simp: phase_groups_def g5 g4 g3 b1 b2 b3 g2)
qed


lemma fix_timestamp_float_ok:
  "fix_timestamp rt d k = Inr d1 \<Longrightarrow> float_ok rt d k"
  by (auto simp: fix_timestamp_def float_ok_def ebind_Inr_iff split: option.splits)

lemma post_process_returns_iff:
  "(\<exists>d'. post_process rt d = Inr d') \<longleftrightarrow> timestamps_convert rt d"
proof
  assume "\<exists>d'. post_process rt d = Inr d'"
  then obtain d' where pp: "post_process rt d = Inr d'" ..
  show "timestamps_convert rt d"
  proof (cases "d = []")
    case True
    then show ?thesis by (simp add: timestamps_convert_def float_ok_def dict_get_def)
  next
    case False
    from pp False obtain d1 d2 d3 d4 where
      s1: "fix_timestamp rt d INVERTER_TIMESTAMP_ONLINE = Inr d1" and
      s2: "fix_timestamp rt d1 INVERTER_TIMESTAMP_UPDATE = Inr d2"
      by (rule post_process_steps)
    from fix_timestamp_float_ok[OF s2] fix_timestamp_get[OF s1, of INVERTER_TIMESTAMP_UPDATE]
    have "float_ok rt d INVERTER_TIMESTAMP_UPDATE" by (simp add: float_ok_def)
    with fix_timestamp_float_ok[OF s1] show ?thesis by (simp add: timestamps_convert_def)
  qed
next
  assume "timestamps_convert rt d"
  then show "\<exists>d'. post_process rt d = Inr d'" by (rule post_process_returns)
qed

text \<open>The keys of a set of measurements that the code builds are distinct.\<close>

lemma collect_attributes_distinct:
  "collect_attributes rt m jsondata attributes d = Inr d' \<Longrightarrow> distinct (map fst d)
     \<Longrightarrow> distinct (map fst d')"
proof (induction attributes arbitrary: d)
  case Nil
  then show ?case by simp
next
  case (Cons a attributes)
  obtain dictkey key ty precision where a: "a = (dictkey, key, ty, precision)"
    by (cases a)
  from Cons.prems a show ?case
    by (auto split: sum.splits option.splits intro: Cons.IH distinct_dict_set)
qed

lemma collect_sections_distinct:
  "collect_sections rt payload table d = Inr d' \<Longrightarrow> distinct (map fst d)
     \<Longrightarrow> distinct (map fst d')"
proof (induction table arbitrary: d)
  case Nil
  then show ?case by simp
next
  case (Cons row table)
  obtain subkey m attributes where row: "row = (subkey, m, attributes)"
    by (cases row)
  from Cons.prems row show ?case
    by (auto split: sum.splits intro: Cons.IH dest: collect_attributes_distinct)
qed

lemma fix_timestamp_distinct:
  "fix_timestamp rt d k = Inr d' \<Longrightarrow> distinct (map fst d) \<Longrightarrow> distinct (map fst d')"
  by (auto simp: fix_timestamp_def ebind_Inr_iff distinct_dict_set split: option.splits)

lemma dict_pop_distinct:
  "dict_pop d k = Inr d' \<Longrightarrow> distinct (map fst d) \<Longrightarrow> distinct (map fst d')"
  by (auto simp: dict_pop_def distinct_map_filter split: if_splits)

lemma purge_pair_distinct:
  "purge_if_unused d v [a, b] = Inr d' \<Longrightarrow> distinct (map fst d) \<Longrightarrow> distinct (map fst d')"
  by (auto simp: purge_if_unused_def split: if_splits sum.splits dest!: dict_pop_distinct)

lemma post_process_distinct:
  assumes "post_process rt d = Inr d'" and "distinct (map fst d)"
  shows "distinct (map fst d')"
proof (cases "d = []")
  case True
  with assms show ?thesis by (simp add: post_process_def)
next
  case False
  from assms(1) False obtain d1 d2 d3 d4 where
    "fix_timestamp rt d INVERTER_TIMESTAMP_ONLINE = Inr d1"
    "fix_timestamp rt d1 INVERTER_TIMESTAMP_UPDATE = Inr d2"
    "purge_if_unused d2 0 [PHASE1_CURRENT, PHASE1_VOLTAGE] = Inr d3"
    "purge_if_unused d3 0 [PHASE2_CURRENT, PHASE2_VOLTAGE] = Inr d4"
    "purge_if_unused d4 0 [PHASE3_CURRENT, PHASE3_VOLTAGE] = Inr d'"
    by (rule post_process_steps)
  with assms(2) show ?thesis
    by (blast dest: fix_timestamp_distinct purge_pair_distinct)
qed

lemma fetch_inverter_data_distinct:
  "fetch_inverter_data w k s = (Inr (Some d), s') \<Longrightarrow> distinct (map fst d)"
  by (auto simp: fetch_inverter_data_def collect_inverter_data_def ebind_Inr_iff
      split: if_splits option.splits prod.splits sum.splits
      dest!: collect_sections_distinct post_process_distinct)

text \<open>The timestamps that extraction stores are ints, as the table declares.\<close>

definition is_int :: "dvalue \<Rightarrow> bool" where
  "is_int x = (case x of VInt n \<Rightarrow> True | _ \<Rightarrow> False)"

definition int_at :: "measurements \<Rightarrow> attribute \<Rightarrow> bool" where
  "int_at d k = (case dict_get d k of None \<Rightarrow> True | Some x \<Rightarrow> is_int x)"

lemma convert_int: "convert rt TInt precision raw = Inr v \<Longrightarrow> is_int v"
  by (auto simp: ebind_Inr_iff is_int_def)

lemma get_value_int: "get_value rt jsondata key TInt precision = Inr (Some v) \<Longrightarrow> is_int v"
  by (auto simp: get_value_def ebind_Inr_iff is_int_def split: if_splits)

lemma scan_record_int:
  "scan_record rt key TInt precision result x = Inr (Some v) \<Longrightarrow>
   result = Some v \<or> is_int v"
  by (auto simp: scan_record_def ebind_Inr_iff is_int_def split: if_splits)

lemma scan_records_int:
  "scan_records rt key TInt precision result data = Inr (Some v) \<Longrightarrow>
   result = Some v \<or> is_int v"
proof (induction data arbitrary: result)
  case Nil
  then show ?case by simp
next
  case (Cons x data)
  from Cons.prems obtain result' where
    r: "scan_record rt key TInt precision result x = Inr result'"
    and rest: "scan_records rt key TInt precision result' data = Inr (Some v)"
    by (auto split: sum.splits)
  from Cons.IH[OF rest] show ?case
  proof
    assume "result' = Some v"
    with r scan_record_int show ?thesis by blast
  next
    assume "is_int v"
    then show ?thesis ..
  qed
qed

lemma get_value_method_int:
  "get_value_method m rt jsondata key TInt precision = Inr (Some v) \<Longrightarrow> is_int v"
  by (cases m)
     (auto simp: get_value_from_record_def ebind_Inr_iff dest: get_value_int scan_records_int)

lemma int_at_dict_set:
  "int_at d k \<Longrightarrow> a = k \<longrightarrow> is_int v \<Longrightarrow> int_at (dict_set d a v) k"
  by (auto simp: int_at_def dict_get_dict_set)

lemma collect_attributes_int:
  assumes "\<forall>(a, key, ty, precision)\<in>set attributes. a = k \<longrightarrow> ty = TInt"
    and "int_at d k"
    and "collect_attributes rt m jsondata attributes d = Inr d'"
  shows "int_at d' k"
  using assms
proof (induction attributes arbitrary: d)
  case Nil
  then show ?case by simp
next
  case (Cons a attributes)
  obtain dictkey key ty precision where a: "a = (dictkey, key, ty, precision)"
    by (cases a)
  show ?case
  proof (cases "get_value_method m rt jsondata key ty precision")
    case (Inl e)
    with Cons.prems a show ?thesis by simp
  next
    case (Inr ov)
    show ?thesis
    proof (cases ov)
      case None
      with Cons.prems a Inr show ?thesis by (auto intro: Cons.IH)
    next
      case (Some v)
      have "dictkey = k \<longrightarrow> is_int v"
        using Cons.prems(1) a Inr Some by (auto dest: get_value_method_int)
      from int_at_dict_set[OF Cons.prems(2) this] Cons.prems a Inr Some show ?thesis
        by (auto intro: Cons.IH)
    qed
  qed
qed

lemma collect_sections_int:
  assumes "\<forall>(subkey, m, attributes)\<in>set table.
             \<forall>(a, key, ty, precision)\<in>set attributes. a = k \<longrightarrow> ty = TInt"
    and "int_at d k"
    and "collect_sections rt payload table d = Inr d'"
  shows "int_at d' k"
  using assms
proof (induction table arbitrary: d)
  case Nil
  then show ?case by simp
next
  case (Cons row table)
  obtain subkey m attributes where row: "row = (subkey, m, attributes)"
    by (cases row)
  from Cons.prems row obtain jsondata d1 where
    c: "collect_attributes rt m jsondata attributes d = Inr d1"
    and r: "collect_sections rt payload table d1 = Inr d'"
    by (auto split: sum.splits)
  have "int_at d1 k"
    using Cons.prems(1) row by (intro collect_attributes_int[OF _ Cons.prems(2) c]) auto
  with Cons.prems(1) r show ?thesis
    by (intro Cons.IH) auto
qed

lemma extracted_timestamps_are_ints:
  assumes "collect_inverter_data rt payload [] = Inr d"
    and "k = INVERTER_TIMESTAMP_ONLINE \<or> k = INVERTER_TIMESTAMP_UPDATE"
  shows "int_at d k"
proof -
  have t: "\<forall>(subkey, m, attributes)\<in>set INVERTER_DATA.
             \<forall>(a, key, ty, precision)\<in>set attributes. a = k \<longrightarrow> ty = TInt"
    using assms(2) by (auto simp: INVERTER_DATA_def)
  have "int_at [] k" by (simp add: int_at_def dict_get_def)
  from collect_sections_int[OF t this] assms(1) show ?thesis
    by (simp add: collect_inverter_data_def)
qed

definition phase_example :: measurements where
  "phase_example =
     [(INVERTER_STATE, VInt 1),
      (PHASE1_VOLTAGE, VFloat 5), (PHASE2_VOLTAGE, VFloat 0),
      (PHASE1_CURRENT, VFloat 0), (PHASE2_CURRENT, VFloat 0)]"

text \<open>
  Claim C7. Post-processing returns exactly when the timestamps that are present convert
  to float (\<open>post_process_returns_iff\<close>; those that extraction stores are ints,
  \<open>extracted_timestamps_are_ints\<close>). For each of the three phase groups: when the
  current and the voltage are both present and both equal to 0.0, neither is in the
  result; otherwise both are in the result as they were (present with the same value, or
  absent).
\<close>

theorem post_process_prunes_unused_phases:
  assumes "timestamps_convert rt d" and "(c, v) \<in> set phase_groups"
  shows "\<exists>d'. post_process rt d = Inr d' \<and>
           (if both_zero d c v then dict_get d' c = None \<and> dict_get d' v = None
            else dict_get d' c = dict_get d c \<and> dict_get d' v = dict_get d v)"
proof -
  from post_process_returns[OF assms(1)] obtain d' where d': "post_process rt d = Inr d'" ..
  from post_process_phase[OF d' assms(2), of c] post_process_phase[OF d' assms(2), of v] d'
  show ?thesis by simp
qed

theorem post_process_prunes_unused_phases_witness:
  "\<exists>d'. post_process example_runtime phase_example = Inr d'
     \<and> dict_get d' PHASE2_CURRENT = None \<and> dict_get d' PHASE2_VOLTAGE = None"
  using post_process_prunes_unused_phases
          [of example_runtime phase_example PHASE2_CURRENT PHASE2_VOLTAGE]
  by (simp add: phase_example_def timestamps_convert_def float_ok_def phase_groups_def
      both_zero_def dict_get_def)

lemma phase_example_result:
  "post_process example_runtime phase_example =
     Inr [(INVERTER_STATE, VInt 1), (PHASE1_VOLTAGE, VFloat 5), (PHASE1_CURRENT, VFloat 0)]"
  by (simp add: post_process_def fix_timestamp_def purge_if_unused_def dict_pop_def
      dict_contains_def dict_get_def phase_example_def)



section \<open>A world for the examples\<close>

text \<open>
  The portal accepts the login, lists the given inverters and answers a request for the
  details of a device as \<open>details\<close> says; the clock stands still; the subscriber 0
  rejects every update and every other subscriber accepts.
\<close>

definition login_accepted :: json where
  "login_accepted = JObj [(''result'', JObj [(''isAccept'', JInt 1)])]"

definition inverter_list_page :: "(string \<times> int) list \<Rightarrow> json" where
  "inverter_list_page inverters =
     JObj [(''result'', JObj [(''paginationAjax'', JObj [(''data'',
       JList (map (\<lambda>(sn, device_id). JObj [(''sn'', JStr sn), (''deviceId'', JInt device_id)])
                inverters))])])]"

definition detail_of :: "(string \<times> json) list \<Rightarrow> json" where
  "detail_of fs =
     JObj [(''result'', JObj [(''deviceWapper'', JObj (fs @
       [(''realTimeDataImp'', JList []),
        (''realTimeDataOther'', JList []),
        (''realTimeDataState'', JList [JObj [(''key'', JStr ''1fd''), (''value'', JStr ''1'')]]),
        (''realTimeDataPower'', JList [JObj [(''key'', JStr ''1bd''), (''value'', JStr ''12.5'')]]),
        (''dataJSON'', JObj [])]))])]"

definition detail_page :: json where
  "detail_page =
     detail_of [(''sn'', JStr ''INV1''), (''updateDate'', JInt 1700000000000), (''state'', JInt 1)]"

definition example_http ::
  "(string \<times> int) list \<Rightarrow> (json \<Rightarrow> transport) \<Rightarrow> nat \<Rightarrow> http_method \<Rightarrow> string
     \<Rightarrow> (string \<times> json) list \<Rightarrow> transport" where
  "example_http inverters details n m url params =
     (if m = POST then Response 200 login_accepted
      else case map_of params ''deviceId'' of
             Some device_id \<Rightarrow> details device_id
           | None \<Rightarrow> Response 200 (inverter_list_page inverters))"

definition example_world ::
  "(string \<times> int) list \<Rightarrow> (json \<Rightarrow> transport) \<Rightarrow> datetime \<Rightarrow> world" where
  "example_world inverters details t =
     \<lparr>py = example_runtime, http = example_http inverters details, clock = (\<lambda>n. t),
      do_update = (\<lambda>n subscriber v u. Inr (subscriber \<noteq> 0))\<rparr>"

definition example_config :: portal_config where
  "example_config = \<lparr>domain = ''m.ginlong.com'', username = ''u'', password = ''p'', plantid = 7\<rparr>"

definition example_service :: service where
  "example_service =
     subscribe 1 ''INV1'' INVERTER_ENERGY_TODAY
       (subscribe 0 ''INV1'' INVERTER_STATE (initial_service example_config))"

definition one_inverter_world :: world where
  "one_inverter_world =
     example_world [(''INV1'', 42)] (\<lambda>device_id. Response 200 detail_page) (hours 8)"

definition three_inverter_world :: world where
  "three_inverter_world =
     example_world [(''INV1'', 42), (''INV2'', 43), (''INV3'', 44)]
       (\<lambda>device_id. if device_id = JInt 43 then TransportError else Response 200 detail_page)
       (hours 8)"

definition unconvertible_state_page :: json where
  "unconvertible_state_page = detail_of [(''sn'', JStr ''INV1''), (''state'', JStr ''abc'')]"

definition unconvertible_state_world :: world where
  "unconvertible_state_world =
     example_world [(''INV1'', 42)] (\<lambda>device_id. Response 200 unconvertible_state_page) (hours 8)"

definition online_service :: service where
  "online_service =
     example_service\<lparr>api := (api example_service)
       \<lparr>session := True, online := True, inverter_list := Some [(KStr ''INV1'', JInt 42)]\<rparr>\<rparr>"

definition directoryless_service :: service where
  "directoryless_service =
     example_service\<lparr>api := (api example_service)
       \<lparr>session := True, online := True, inverter_list := None\<rparr>\<rparr>"

definition stateless_page :: json where
  "stateless_page = detail_of [(''sn'', JStr ''INV1'')]"

definition stateless_world :: world where
  "stateless_world =
     example_world [(''INV1'', 42)] (\<lambda>device_id. Response 200 stateless_page) (hours 8)"

text \<open>A set of measurements with a daily energy of 12.5, a service whose last update is
  at \<open>t\<close> and whose state subscriber has accepted its last update \<open>age\<close> minutes before,
  and a world whose clock shows \<open>t\<close>.\<close>

definition energy_data :: "int \<Rightarrow> measurements" where
  "energy_data state =
     [(INVERTER_SERIAL, VStr ''INV1''), (INVERTER_ENERGY_TODAY, VFloat (25 / 2)),
      (INVERTER_STATE, VInt state)]"

definition morning_service :: "datetime \<Rightarrow> int \<Rightarrow> service" where
  "morning_service t age =
     example_service\<lparr>last_updated := Some t,
                     measured := (\<lambda>subscriber. None)(0 := Some (t - minutes age))\<rparr>"

definition at_time :: "datetime \<Rightarrow> world" where
  "at_time t = example_world [(''INV1'', 42)] (\<lambda>device_id. Response 200 detail_page) t"

section \<open>service: what a step of the cycle changes\<close>

text \<open>The events that are neither a call of \<^verbatim>\<open>schedule_update\<close> nor the return of a
  fetch of the update loop.\<close>

fun quiet_event :: "event \<Rightarrow> bool" where
  "quiet_event (Schedule n) = False"
| "quiet_event (Fetched k ok) = False"
| "quiet_event e = True"

definition quiet_step :: "service \<Rightarrow> service \<Rightarrow> bool" where
  "quiet_step s s' \<longleftrightarrow> (\<exists>evs. events s' = events s @ evs \<and> list_all quiet_event evs)"

lemma quiet_step_refl: "events s' = events s \<Longrightarrow> quiet_step s s'"
  by (simp add: quiet_step_def)

lemma quiet_step_trans: "quiet_step s s1 \<Longrightarrow> quiet_step s1 s2 \<Longrightarrow> quiet_step s s2"
  by (auto simp: quiet_step_def)

lemma quiet_step_events: "quiet_step s s1 \<Longrightarrow> events s2 = events s1 \<Longrightarrow> quiet_step s s2"
  by (auto simp: quiet_step_def)

lemma now_quiet: "now w s = (t, s') \<Longrightarrow> quiet_step s s'"
  by (auto simp: now_def quiet_step_def)

lemma now_fields:
  "now w s = (t, s') \<Longrightarrow> api s' = api s \<and> subscriptions s' = subscriptions s
     \<and> measured s' = measured s \<and> logintime s' = logintime s \<and> last_updated s' = last_updated s"
  by (auto simp: now_def)

lemma request_quiet: "request w m url params s = (r, s') \<Longrightarrow> quiet_step s s'"
  by (auto simp: request_def quiet_step_def Let_def split: if_splits transport.splits)

lemma request_fields:
  "request w m url params s = (r, s') \<Longrightarrow> api s' = api s \<and> subscriptions s' = subscriptions s
     \<and> measured s' = measured s \<and> logintime s' = logintime s \<and> last_updated s' = last_updated s"
  by (auto simp: request_def Let_def split: if_splits transport.splits)

lemma fetch_inverter_list_quiet: "fetch_inverter_list w p s = (r, s') \<Longrightarrow> quiet_step s s'"
  by (auto simp: fetch_inverter_list_def get_data_def set_online_def Let_def
      split: prod.splits sum.splits option.splits
      dest!: request_quiet elim: quiet_step_events)

lemma fetch_inverter_list_fields:
  "fetch_inverter_list w p s = (r, s') \<Longrightarrow>
     subscriptions s' = subscriptions s \<and> measured s' = measured s
     \<and> logintime s' = logintime s \<and> last_updated s' = last_updated s
     \<and> inverter_list (api s') = inverter_list (api s)"
  by (auto simp: fetch_inverter_list_def get_data_def set_online_def Let_def
      split: prod.splits sum.splits option.splits dest!: request_fields)

lemma fetch_inverter_list_result:
  "fetch_inverter_list w p s = (Inr r, s') \<Longrightarrow>
     (r = None \<longrightarrow> \<not> online (api s')) \<and> (r \<noteq> None \<longrightarrow> online (api s') = online (api s))"
  by (auto simp: fetch_inverter_list_def get_data_def set_online_def Let_def
      split: prod.splits sum.splits option.splits dest!: request_fields)

lemma login_quiet: "login w s = (r, s') \<Longrightarrow> quiet_step s s'"
  apply (auto simp: login_def post_data_def set_online_def Let_def
      split: prod.splits sum.splits option.splits if_splits
      dest!: request_quiet fetch_inverter_list_quiet)
  apply (auto simp: quiet_step_def)
  done

lemma login_fields:
  "login w s = (r, s') \<Longrightarrow>
     subscriptions s' = subscriptions s \<and> measured s' = measured s
     \<and> logintime s' = logintime s \<and> last_updated s' = last_updated s"
  by (auto simp: login_def post_data_def set_online_def Let_def
      split: prod.splits sum.splits option.splits if_splits
      dest!: request_fields fetch_inverter_list_fields)

definition session_consistent :: "service \<Rightarrow> bool" where
  "session_consistent s \<longleftrightarrow> (online (api s) \<longrightarrow> inverter_list (api s) \<noteq> None)"

lemma login_result:
  assumes "login w s = (Inr ok, s')" and "\<not> online (api s)"
  shows "ok = online (api s') \<and> session_consistent s'"
  using assms
  by (auto simp: login_def post_data_def set_online_def Let_def session_consistent_def
      split: prod.splits sum.splits option.splits if_splits
      dest!: request_fields fetch_inverter_list_result)

lemma get_inverter_details_frame:
  "get_inverter_details w dev s = (r, s') \<Longrightarrow>
     quiet_step s s' \<and> api s' = api s \<and> subscriptions s' = subscriptions s
     \<and> measured s' = measured s \<and> logintime s' = logintime s \<and> last_updated s' = last_updated s"
  by (auto simp: get_inverter_details_def get_data_def Let_def
      split: prod.splits sum.splits option.splits dest: request_quiet request_fields)

lemma fetch_inverter_data_frame:
  "fetch_inverter_data w k s = (r, s') \<Longrightarrow>
     quiet_step s s' \<and> api s' = api s \<and> subscriptions s' = subscriptions s
     \<and> measured s' = measured s \<and> logintime s' = logintime s \<and> last_updated s' = last_updated s"
  by (auto simp: fetch_inverter_data_def quiet_step_refl
      split: prod.splits sum.splits option.splits if_splits dest: get_inverter_details_frame)

lemma fetch_inverter_data_offline:
  "\<not> online (api s) \<Longrightarrow> fetch_inverter_data w k s = (Inr None, s)"
  by (simp add: fetch_inverter_data_def)

lemma data_updated_frame:
  "data_updated w sub v t s = (r, s') \<Longrightarrow>
     quiet_step s s' \<and> api s' = api s \<and> subscriptions s' = subscriptions s
     \<and> logintime s' = logintime s \<and> last_updated s' = last_updated s"
  by (auto simp: data_updated_def Let_def quiet_step_def split: if_splits sum.splits)

lemma energy_today_value_frame:
  "energy_today_value w data serial v s = (r, s') \<Longrightarrow>
     quiet_step s s' \<and> api s' = api s \<and> subscriptions s' = subscriptions s
     \<and> measured s' = measured s \<and> logintime s' = logintime s \<and> last_updated s' = last_updated s"
  by (auto simp: energy_today_value_def now_def Let_def quiet_step_def
      split: if_splits sum.splits option.splits prod.splits)

lemma dispatch_frame:
  "dispatch w data serial ks s = (r, s') \<Longrightarrow>
     quiet_step s s' \<and> api s' = api s \<and> subscriptions s' = subscriptions s
     \<and> logintime s' = logintime s \<and> last_updated s' = last_updated s"
proof (induction ks arbitrary: s)
  case Nil
  then show ?case by (simp add: quiet_step_refl)
next
  case (Cons a ks)
  show ?case
  proof (cases "subscriber_of s serial a")
    case (Inl e)
    with Cons show ?thesis by simp
  next
    case (Inr sub)
    show ?thesis
    proof (cases "getattr data a")
      case (Inl e)
      with Inr Cons.prems show ?thesis by (simp add: quiet_step_refl)
    next
      case v: (Inr v)
      obtain r1 s1 where e: "(if a = INVERTER_ENERGY_TODAY
                      then energy_today_value w data serial v s
                      else (Inr v, s)) = (r1, s1)" by fastforce
      then have f1: "quiet_step s s1 \<and> api s1 = api s \<and> subscriptions s1 = subscriptions s
          \<and> logintime s1 = logintime s \<and> last_updated s1 = last_updated s"
        by (auto simp: quiet_step_refl split: if_splits dest: energy_today_value_frame)
      show ?thesis
      proof (cases r1)
        case (Inl e1)
        with Inr v e f1 Cons.prems show ?thesis by simp
      next
        case v': (Inr v')
        obtain r2 s2 where d: "data_updated w sub v' (last_updated s1) s1 = (r2, s2)"
          by fastforce
        note f2 = data_updated_frame[OF d]
        show ?thesis
        proof (cases r2)
          case (Inl e2)
          with Inr v e v' d f1 f2 Cons.prems show ?thesis
            by (auto elim: quiet_step_trans)
        next
          case u: (Inr u)
          with Inr v e v' d Cons.prems have "dispatch w data serial ks s2 = (r, s')"
            by simp
          from Cons.IH[OF this] f1 f2 show ?thesis
            by (auto elim: quiet_step_trans)
        qed
      qed
    qed
  qed
qed

lemma update_devices_frame:
  "update_devices w data s = (r, s') \<Longrightarrow>
     quiet_step s s' \<and> api s' = api s \<and> subscriptions s' = subscriptions s
     \<and> logintime s' = logintime s \<and> last_updated s' = last_updated s"
  by (auto simp: update_devices_def quiet_step_refl
      split: sum.splits dvalue.splits option.splits dest: dispatch_frame)

lemma login_frame:
  "login w s = (r, s') \<Longrightarrow>
     quiet_step s s' \<and> subscriptions s' = subscriptions s \<and> measured s' = measured s
     \<and> logintime s' = logintime s \<and> last_updated s' = last_updated s"
  using login_quiet login_fields by blast

lemma service_login_frame:
  "service_login w s = (r, s') \<Longrightarrow>
     quiet_step s s' \<and> subscriptions s' = subscriptions s \<and> measured s' = measured s
     \<and> last_updated s' = last_updated s"
  by (auto simp: service_login_def now_def quiet_step_refl
      split: if_splits prod.splits sum.splits dest!: login_frame
      simp: quiet_step_def)

lemma service_login_result:
  assumes "service_login w s = (Inr ok, s')" and "session_consistent s"
  shows "ok = online (api s') \<and> session_consistent s'"
  using assms
  by (auto simp: service_login_def now_def session_consistent_def
      split: if_splits prod.splits sum.splits dest!: login_result)

fun schedule_calls :: "event list \<Rightarrow> int list" where
  "schedule_calls [] = []"
| "schedule_calls (Schedule n # evs) = n # schedule_calls evs"
| "schedule_calls (e # evs) = schedule_calls evs"

fun fetch_outcomes :: "event list \<Rightarrow> bool list" where
  "fetch_outcomes [] = []"
| "fetch_outcomes (Fetched k ok # evs) = ok # fetch_outcomes evs"
| "fetch_outcomes (e # evs) = fetch_outcomes evs"

fun requests :: "event list \<Rightarrow> http_method list" where
  "requests [] = []"
| "requests (Http m url params # evs) = m # requests evs"
| "requests (e # evs) = requests evs"

lemma schedule_calls_append: "schedule_calls (a @ b) = schedule_calls a @ schedule_calls b"
  by (induction a rule: schedule_calls.induct) auto

lemma fetch_outcomes_append: "fetch_outcomes (a @ b) = fetch_outcomes a @ fetch_outcomes b"
  by (induction a rule: fetch_outcomes.induct) auto

lemma requests_append: "requests (a @ b) = requests a @ requests b"
  by (induction a rule: requests.induct) auto

lemma quiet_schedule_calls: "list_all quiet_event evs \<Longrightarrow> schedule_calls evs = []"
  by (induction evs rule: schedule_calls.induct) auto

lemma quiet_fetch_outcomes: "list_all quiet_event evs \<Longrightarrow> fetch_outcomes evs = []"
  by (induction evs rule: fetch_outcomes.induct) auto

lemma session_consistent_initial: "session_consistent (initial_service cfg)"
  by (simp add: session_consistent_def initial_service_def)

lemma session_consistent_subscribe:
  "session_consistent s \<Longrightarrow> session_consistent (subscribe sub serial a s)"
  by (simp add: session_consistent_def subscribe_def Let_def)

lemma session_consistent_logout: "session_consistent (service_logout s)"
  by (simp add: session_consistent_def service_logout_def logout_def)

lemma fetch_all_offline:
  "\<not> online (api s) \<Longrightarrow>
   \<exists>s'. fetch_all w ks u s = (Inr (if ks = [] then u else SCHEDULE_NOK), s')
        \<and> events s' = events s @ map (\<lambda>k. Fetched k False) ks
        \<and> \<not> online (api s') \<and> subscriptions s' = subscriptions s"
proof (induction ks arbitrary: u s)
  case Nil
  then show ?case by simp
next
  case (Cons k ks)
  let ?s1 = "service_logout (s\<lparr>events := events s @ [Fetched k False]\<rparr>)"
  have off: "\<not> online (api ?s1)" by (simp add: service_logout_def logout_def)
  from Cons.IH[OF off, of SCHEDULE_NOK] obtain s' where
    "fetch_all w ks SCHEDULE_NOK ?s1 = (Inr (if ks = [] then SCHEDULE_NOK else SCHEDULE_NOK), s')"
    "events s' = events ?s1 @ map (\<lambda>k. Fetched k False) ks"
    "\<not> online (api s')" "subscriptions s' = subscriptions ?s1"
    by blast
  with Cons.prems show ?case
    by (simp add: fetch_inverter_data_offline service_logout_def logout_def)
qed

lemma fetch_all_trace:
  "fetch_all w ks u s = (Inr r, s') \<Longrightarrow>
   \<exists>evs n m. events s' = events s @ evs \<and> schedule_calls evs = []
      \<and> fetch_outcomes evs = replicate n True @ replicate m False
      \<and> (0 < m \<longrightarrow> r = SCHEDULE_NOK)
      \<and> subscriptions s' = subscriptions s
      \<and> (session_consistent s \<longrightarrow> session_consistent s')"
proof (induction ks arbitrary: u s)
  case Nil
  then have "events s' = events s @ [] \<and> schedule_calls [] = []
      \<and> fetch_outcomes [] = replicate 0 True @ replicate 0 False"
    by simp
  with Nil show ?case by auto
next
  case (Cons k ks)
  obtain r1 s1 where f: "fetch_inverter_data w k s = (r1, s1)" by fastforce
  note fr = fetch_inverter_data_frame[OF f]
  from fr obtain e1 where e1: "events s1 = events s @ e1" "list_all quiet_event e1"
    by (auto simp: quiet_step_def)
  show ?case
  proof (cases r1)
    case (Inl e)
    with f Cons.prems show ?thesis by simp
  next
    case (Inr od)
    show ?thesis
    proof (cases od)
      case None
      let ?s2 = "service_logout (s1\<lparr>events := events s1 @ [Fetched k False]\<rparr>)"
      have off: "\<not> online (api ?s2)" by (simp add: service_logout_def logout_def)
      from fetch_all_offline[OF off, of w ks SCHEDULE_NOK] Cons.prems f Inr None
      have r: "r = SCHEDULE_NOK"
        and ev: "events s' = events ?s2 @ map (\<lambda>k. Fetched k False) ks"
        and off': "\<not> online (api s')" and sub: "subscriptions s' = subscriptions ?s2"
        by (auto split: if_splits)
      let ?evs = "e1 @ Fetched k False # map (\<lambda>k. Fetched k False) ks"
      have fo: "fetch_outcomes (map (\<lambda>k. Fetched k False) ks) = replicate (length ks) False"
        by (induction ks) auto
      have "events s' = events s @ ?evs"
        using ev e1 by (simp add: service_logout_def logout_def)
      moreover have "schedule_calls ?evs = []"
        using e1 by (simp add: schedule_calls_append quiet_schedule_calls)
           (induction ks, auto)
      moreover have "fetch_outcomes ?evs = replicate 0 True @ replicate (Suc (length ks)) False"
        using e1 fo by (simp add: fetch_outcomes_append quiet_fetch_outcomes)
      moreover have "subscriptions s' = subscriptions s"
        using sub fr by (simp add: service_logout_def logout_def)
      moreover have "session_consistent s'"
        using off' by (simp add: session_consistent_def)
      ultimately show ?thesis using r by blast
    next
      case (Some data)
      let ?s2 = "s1\<lparr>events := events s1 @ [Fetched k True]\<rparr>"
      obtain t s3 where n: "now w ?s2 = (t, s3)" by fastforce
      let ?s4 = "s3\<lparr>last_updated := Some t\<rparr>"
      obtain r5 s5 where u5: "update_devices w data ?s4 = (r5, s5)" by fastforce
      note uf = update_devices_frame[OF u5]
      from uf obtain e5 where e5: "events s5 = events ?s4 @ e5" "list_all quiet_event e5"
        by (auto simp: quiet_step_def)
      from Cons.prems f Inr Some n u5 obtain u' where r5: "r5 = Inr u'"
        and rec: "fetch_all w ks SCHEDULE_OK s5 = (Inr r, s')"
        by (auto split: sum.splits)
      from Cons.IH[OF rec] obtain evs n' m where ih:
        "events s' = events s5 @ evs" "schedule_calls evs = []"
        "fetch_outcomes evs = replicate n' True @ replicate m False"
        "0 < m \<longrightarrow> r = SCHEDULE_NOK" "subscriptions s' = subscriptions s5"
        "session_consistent s5 \<longrightarrow> session_consistent s'"
        by blast
      let ?evs = "e1 @ Fetched k True # Now # e5 @ evs"
      have "events s' = events s @ ?evs"
        using ih(1) e5 e1 n by (auto simp: now_def)
      moreover have "schedule_calls ?evs = []"
        using e1 e5 ih(2) by (simp add: schedule_calls_append quiet_schedule_calls)
      moreover have "fetch_outcomes ?evs = replicate (Suc n') True @ replicate m False"
        using e1 e5 ih(3) by (simp add: fetch_outcomes_append quiet_fetch_outcomes)
      moreover have "subscriptions s' = subscriptions s"
        using ih(5) uf fr n by (auto simp: now_def)
      moreover have "session_consistent s \<longrightarrow> session_consistent s'"
        using ih(6) uf fr n by (auto simp: now_def session_consistent_def)
      ultimately show ?thesis using ih(4) by blast
    qed
  qed
qed

lemma finish_update_trace:
  "finish_update w u s = (r, s') \<Longrightarrow>
   r = Inr u \<and> subscriptions s' = subscriptions s
   \<and> (session_consistent s \<longrightarrow> session_consistent s')
   \<and> (\<exists>evs. events s' = events s @ evs \<and> schedule_calls evs = [u] \<and> fetch_outcomes evs = [])"
  by (auto simp: finish_update_def schedule_update_def now_def Let_def service_logout_def
      logout_def session_consistent_def split: option.splits if_splits)

text \<open>The fetches of the update loop, in order: the inverter and whether its fetch has
  returned data.\<close>

fun fetches :: "event list \<Rightarrow> (key \<times> bool) list" where
  "fetches [] = []"
| "fetches (Fetched k ok # evs) = (k, ok) # fetches evs"
| "fetches (e # evs) = fetches evs"

lemma fetches_append: "fetches (a @ b) = fetches a @ fetches b"
  by (induction a rule: fetches.induct) auto

lemma quiet_fetches: "list_all quiet_event evs \<Longrightarrow> fetches evs = []"
  by (induction evs rule: fetches.induct) auto

lemma fetches_failed: "fetches (map (\<lambda>k. Fetched k False) ks) = zip ks (replicate (length ks) False)"
  by (induction ks) auto

lemma fetch_all_offline_directory:
  "\<not> online (api s) \<Longrightarrow> inverter_list (api s) = None \<Longrightarrow>
   fetch_all w ks u s = (r, s') \<Longrightarrow> inverter_list (api s') = None"
proof (induction ks arbitrary: u s)
  case Nil
  then show ?case by simp
next
  case (Cons k ks)
  let ?s1 = "service_logout (s\<lparr>events := events s @ [Fetched k False]\<rparr>)"
  have "\<not> online (api ?s1)" "inverter_list (api ?s1) = None"
    by (simp_all add: service_logout_def logout_def)
  moreover from Cons.prems have "fetch_all w ks SCHEDULE_NOK ?s1 = (r, s')"
    by (simp add: fetch_inverter_data_offline)
  ultimately show ?case by (rule Cons.IH)
qed

lemma fetch_all_fetches:
  "fetch_all w ks u s = (Inr r, s') \<Longrightarrow>
   \<exists>evs n m. events s' = events s @ evs
      \<and> fetches evs = zip ks (replicate n True @ replicate m False)
      \<and> n + m = length ks
      \<and> (0 < m \<longrightarrow> r = SCHEDULE_NOK \<and> \<not> online (api s') \<and> inverter_list (api s') = None)
      \<and> (m = 0 \<longrightarrow> api s' = api s \<and> (0 < n \<longrightarrow> r = SCHEDULE_OK) \<and> (n = 0 \<longrightarrow> r = u))"
proof (induction ks arbitrary: u s)
  case Nil
  then have "events s' = events s @ [] \<and> fetches [] = zip [] (replicate 0 True @ replicate 0 False)
      \<and> 0 + 0 = length ([] :: key list) \<and> api s' = api s \<and> r = u"
    by simp
  then show ?case by blast
next
  case (Cons k ks)
  obtain r1 s1 where f: "fetch_inverter_data w k s = (r1, s1)" by fastforce
  note fr = fetch_inverter_data_frame[OF f]
  from fr obtain e1 where e1: "events s1 = events s @ e1" "list_all quiet_event e1"
    by (auto simp: quiet_step_def)
  show ?case
  proof (cases r1)
    case (Inl e)
    with f Cons.prems show ?thesis by simp
  next
    case (Inr od)
    show ?thesis
    proof (cases od)
      case None
      let ?s2 = "service_logout (s1\<lparr>events := events s1 @ [Fetched k False]\<rparr>)"
      have off: "\<not> online (api ?s2)" by (simp add: service_logout_def logout_def)
      from fetch_all_offline[OF off, of w ks SCHEDULE_NOK] Cons.prems f Inr None
      have r: "r = SCHEDULE_NOK"
        and ev: "events s' = events ?s2 @ map (\<lambda>k. Fetched k False) ks"
        and off': "\<not> online (api s')"
        by (auto split: if_splits)
      from Cons.prems f Inr None have rec: "fetch_all w ks SCHEDULE_NOK ?s2 = (Inr r, s')"
        by simp
      have "inverter_list (api ?s2) = None" by (simp add: service_logout_def logout_def)
      from fetch_all_offline_directory[OF off this rec]
      have nodir: "inverter_list (api s') = None" .
      let ?evs = "e1 @ Fetched k False # map (\<lambda>k. Fetched k False) ks"
      have "events s' = events s @ ?evs"
        using ev e1 by (simp add: service_logout_def logout_def)
      moreover have "fetches ?evs
          = zip (k # ks) (replicate 0 True @ replicate (Suc (length ks)) False)"
        using e1 by (simp add: fetches_append quiet_fetches fetches_failed)
      moreover have "0 + Suc (length ks) = length (k # ks)" by simp
      ultimately show ?thesis using r off' nodir by blast
    next
      case (Some data)
      let ?s2 = "s1\<lparr>events := events s1 @ [Fetched k True]\<rparr>"
      obtain t s3 where n: "now w ?s2 = (t, s3)" by fastforce
      let ?s4 = "s3\<lparr>last_updated := Some t\<rparr>"
      obtain r5 s5 where u5: "update_devices w data ?s4 = (r5, s5)" by fastforce
      note uf = update_devices_frame[OF u5]
      from uf obtain e5 where e5: "events s5 = events ?s4 @ e5" "list_all quiet_event e5"
        by (auto simp: quiet_step_def)
      from Cons.prems f Inr Some n u5 obtain u' where r5: "r5 = Inr u'"
        and rec: "fetch_all w ks SCHEDULE_OK s5 = (Inr r, s')"
        by (auto split: sum.splits)
      have api5: "api s5 = api s"
        using uf fr n by (auto simp: now_def)
      from Cons.IH[OF rec] obtain evs n' m where ih:
        "events s' = events s5 @ evs"
        "fetches evs = zip ks (replicate n' True @ replicate m False)"
        "n' + m = length ks"
        "0 < m \<longrightarrow> r = SCHEDULE_NOK \<and> \<not> online (api s') \<and> inverter_list (api s') = None"
        "m = 0 \<longrightarrow> api s' = api s5 \<and> (0 < n' \<longrightarrow> r = SCHEDULE_OK) \<and> (n' = 0 \<longrightarrow> r = SCHEDULE_OK)"
        by blast
      let ?evs = "e1 @ Fetched k True # Now # e5 @ evs"
      have "events s' = events s @ ?evs"
        using ih(1) e5 e1 n by (auto simp: now_def)
      moreover have "fetches ?evs = zip (k # ks) (replicate (Suc n') True @ replicate m False)"
        using e1 e5 ih(2) by (simp add: fetches_append quiet_fetches)
      moreover have "Suc n' + m = length (k # ks)" using ih(3) by simp
      moreover have "m = 0 \<longrightarrow> api s' = api s \<and> r = SCHEDULE_OK"
        using ih(5) api5 by auto
      ultimately show ?thesis using ih(4) by blast
    qed
  qed
qed

text \<open>The inverters that the update loop of a cycle goes through: the keys of the
  directory after \<^verbatim>\<open>_login\<close> has returned True, none otherwise.\<close>

definition cycle_inverters :: "world \<Rightarrow> service \<Rightarrow> key list" where
  "cycle_inverters w s =
     (case service_login w s of
        (Inl e, s1) \<Rightarrow> []
      | (Inr ok, s1) \<Rightarrow>
          if ok then (case inverter_list (api s1) of
                        None \<Rightarrow> []
                      | Some inverters \<Rightarrow> map fst inverters)
          else [])"

lemma finish_update_api:
  "finish_update w u s = (r, s') \<Longrightarrow>
   (\<not> online (api s) \<longrightarrow> \<not> online (api s'))
   \<and> (inverter_list (api s) = None \<longrightarrow> inverter_list (api s') = None)"
  by (auto simp: finish_update_def schedule_update_def now_def Let_def service_logout_def
      logout_def split: option.splits if_splits)

lemma finish_update_fetches:
  "finish_update w u s = (r, s') \<Longrightarrow>
   r = Inr u \<and> (\<exists>evs. events s' = events s @ evs \<and> fetches evs = [])"
  by (auto simp: finish_update_def schedule_update_def now_def Let_def service_logout_def
      logout_def split: option.splits if_splits)

lemma request_requests:
  "request w m url params s = (r, s') \<Longrightarrow>
   \<exists>evs. events s' = events s @ evs \<and> (requests evs = [] \<or> requests evs = [m])"
  by (auto simp: request_def Let_def split: if_splits transport.splits)

lemma fetch_inverter_list_requests:
  "fetch_inverter_list w p s = (r, s') \<Longrightarrow>
   \<exists>evs. events s' = events s @ evs \<and> (requests evs = [] \<or> requests evs = [GET])"
  by (auto simp: fetch_inverter_list_def get_data_def set_online_def Let_def
      split: prod.splits sum.splits option.splits dest!: request_requests)

lemma login_requests:
  assumes "login w s = (r, s')"
  shows "\<exists>evs. events s' = events s @ evs \<and> length (filter (\<lambda>m. m = GET) (requests evs)) \<le> 1"
proof -
  let ?s = "s\<lparr>api := (api s)\<lparr>session := True, inverter_list := None\<rparr>\<rparr>"
  let ?cfg = "config (api s)"
  let ?url = "''https://'' @ domain ?cfg @ ''/cpro/login/validateLogin.json''"
  let ?params = "[(''userName'', JStr (username ?cfg)), (''password'', JStr (password ?cfg)),
                    (''lan'', JInt 2), (''domain'', JStr (domain ?cfg)), (''userType'', JStr ''C'')]"
  obtain r1 s1 where p: "request w POST ?url ?params ?s = (r1, s1)" by fastforce
  from request_requests[OF p] obtain e1 where
    e1: "events s1 = events s @ e1" "requests e1 = [] \<or> requests e1 = [POST]"
    by auto
  have one: "\<exists>evs. events s' = events s @ evs
      \<and> length (filter (\<lambda>m. m = GET) (requests evs)) \<le> 1" if "events s' = events s1"
  proof -
    from that e1 have "events s' = events s @ e1
      \<and> length (filter (\<lambda>m. m = GET) (requests e1)) \<le> 1" by auto
    then show ?thesis by blast
  qed
  have two: "\<exists>evs. events s' = events s @ evs
      \<and> length (filter (\<lambda>m. m = GET) (requests evs)) \<le> 1"
    if "fetch_inverter_list w p' (set_online True s1) = (r2, s2)" "events s' = events s2"
    for p' r2 s2
  proof -
    from fetch_inverter_list_requests[OF that(1)] obtain e2 where
      "events s2 = events s1 @ e2" "requests e2 = [] \<or> requests e2 = [GET]"
      by (auto simp: set_online_def)
    with that(2) e1 have "events s' = events s @ (e1 @ e2)
      \<and> length (filter (\<lambda>m. m = GET) (requests (e1 @ e2))) \<le> 1"
      by (auto simp: requests_append)
    then show ?thesis by blast
  qed
  from assms p have "events s' = events s1
      \<or> (\<exists>p' r2 s2. fetch_inverter_list w p' (set_online True s1) = (r2, s2)
            \<and> events s' = events s2)"
    by (auto simp: login_def post_data_def Let_def
        split: prod.splits sum.splits option.splits if_splits)
       (auto simp: set_online_def)
  with one two show ?thesis by blast
qed

section \<open>The examples, evaluated\<close>

lemmas extraction_simps =
  collect_inverter_data_def INVERTER_DATA_def section_data_def get_value_def
  get_value_from_record_def scan_record_def round_half_even_def float_of_int_def
  post_process_def fix_timestamp_def purge_if_unused_def dict_pop_def dict_contains_def
  dict_get_def

lemma collect_detail_page:
  "collect_inverter_data example_runtime detail_page [] =
     Inr [(INVERTER_SERIAL, VStr ''INV1''), (INVERTER_TIMESTAMP_UPDATE, VInt 1700000000000),
          (INVERTER_STATE, VInt 1), (INVERTER_POWER_STATE, VInt 1),
          (INVERTER_ENERGY_TODAY, VFloat (25 / 2))]"
  by (simp add: extraction_simps detail_page_def detail_of_def example_runtime_simps)

lemma extract_detail_page:
  "ebind (collect_inverter_data example_runtime detail_page []) (post_process example_runtime) =
     Inr [(INVERTER_SERIAL, VStr ''INV1''), (INVERTER_TIMESTAMP_UPDATE, VFloat 1700000000),
          (INVERTER_STATE, VInt 1), (INVERTER_POWER_STATE, VInt 1),
          (INVERTER_ENERGY_TODAY, VFloat (25 / 2))]"
  by (simp add: collect_detail_page) (simp add: extraction_simps)

lemma detail_page_not_null: "detail_page \<noteq> JNull"
  by (simp add: detail_page_def detail_of_def)

lemmas service_simps =
  async_update_def service_login_def login_def post_data_def get_data_def request_def
  fetch_inverter_list_def set_online_def fetch_inverter_data_def get_inverter_details_def
  update_devices_def keys_def getattr_def dict_get_def energy_today_value_def
  subscriber_of_def data_updated_def now_def finish_update_def schedule_update_def
  service_logout_def logout_def hour_def hours_def minutes_def
  SCHEDULE_OK_def SCHEDULE_NOK_def

lemmas example_simps =
  example_world_def example_http_def example_service_def example_config_def
  initial_service_def subscribe_def login_accepted_def inverter_list_page_def
  one_inverter_world_def three_inverter_world_def
  unconvertible_state_world_def online_service_def

lemma async_update_one_inverter:
  "fst (async_update one_inverter_world example_service) = Inr SCHEDULE_OK"
  by (simp add: service_simps example_simps extract_detail_page detail_page_not_null Let_def)

lemma async_update_three_inverters:
  "fst (async_update three_inverter_world example_service) = Inr SCHEDULE_NOK
   \<and> fetch_outcomes (events (snd (async_update three_inverter_world example_service)))
       = [True, False, False]"
  by (simp add: service_simps example_simps extract_detail_page detail_page_not_null Let_def)

lemma async_update_three_inverters_fetches:
  "fst (async_update three_inverter_world example_service) = Inr SCHEDULE_NOK
   \<and> fetches (events (snd (async_update three_inverter_world example_service)))
       = [(KStr ''INV1'', True), (KStr ''INV2'', False), (KStr ''INV3'', False)]
   \<and> cycle_inverters three_inverter_world example_service
       = [KStr ''INV1'', KStr ''INV2'', KStr ''INV3'']"
  by (simp add: service_simps example_simps extract_detail_page detail_page_not_null Let_def
      cycle_inverters_def)


lemma extract_stateless_page:
  "ebind (collect_inverter_data example_runtime stateless_page []) (post_process example_runtime) =
     Inr [(INVERTER_SERIAL, VStr ''INV1''), (INVERTER_POWER_STATE, VInt 1),
          (INVERTER_ENERGY_TODAY, VFloat (25 / 2))]"
  by (simp add: extraction_simps stateless_page_def detail_of_def example_runtime_simps)

lemma stateless_page_not_null: "stateless_page \<noteq> JNull"
  by (simp add: stateless_page_def detail_of_def)

lemma stateless_cycle:
  "fst (service_login stateless_world example_service) = Inr True
   \<and> inverter_list (api (snd (service_login stateless_world example_service)))
       = Some [(KStr ''INV1'', JInt 42)]
   \<and> fst (fetch_inverter_data stateless_world (KStr ''INV1'')
            (snd (service_login stateless_world example_service)))
       = Inr (Some [(INVERTER_SERIAL, VStr ''INV1''), (INVERTER_POWER_STATE, VInt 1),
                    (INVERTER_ENERGY_TODAY, VFloat (25 / 2))])
   \<and> fst (login stateless_world example_service) = Inr True"
  by (simp add: service_simps example_simps stateless_world_def
      extract_stateless_page stateless_page_not_null Let_def)

section \<open>service: properties of the update cycle\<close>

text \<open>
  Claim C3, as stated, fails: from a state whose session is online without an inverter
  directory, \<^verbatim>\<open>async_update\<close> takes the early return on \<^verbatim>\<open>inverters is None\<close>. It
  returns \<^verbatim>\<open>SCHEDULE_NOK\<close> and has not called \<^verbatim>\<open>schedule_update\<close>.
\<close>

theorem async_update_no_schedule_counterexample:
  "fst (async_update one_inverter_world directoryless_service) = Inr SCHEDULE_NOK
   \<and> schedule_calls (events (snd (async_update one_inverter_world directoryless_service))) = []"
  by (simp add: async_update_def service_login_def directoryless_service_def example_simps)

text \<open>
  Claim C3, amended. From a state in which an online session has its inverter directory,
  a call of \<^verbatim>\<open>async_update\<close> that returns the outcome \<open>r\<close> has called
  \<^verbatim>\<open>schedule_update\<close> exactly once, with \<open>r\<close>, whatever the outcome, and leaves such a
  state. The initial state is such a state (\<open>session_consistent_initial\<close>), and only a
  login that raises after it has set \<^verbatim>\<open>_online\<close> leaves another one.
\<close>

theorem async_update_schedules_once:
  assumes "session_consistent s" and "async_update w s = (Inr r, s')"
  shows "\<exists>evs. events s' = events s @ evs \<and> schedule_calls evs = [r] \<and> session_consistent s'"
proof -
  obtain r1 s1 where l: "service_login w s = (r1, s1)" by fastforce
  with assms(2) obtain ok where ok: "r1 = Inr ok"
    by (cases r1) (auto simp: async_update_def)
  from service_login_frame[OF l] obtain e1 where
    e1: "events s1 = events s @ e1" "list_all quiet_event e1"
    by (auto simp: quiet_step_def)
  from service_login_result[OF l[unfolded ok] assms(1)]
  have c1: "ok = online (api s1)" "session_consistent s1" by auto
  show ?thesis
  proof (cases ok)
    case False
    with assms(2) l ok have "finish_update w SCHEDULE_NOK s1 = (Inr r, s')"
      by (simp add: async_update_def)
    from finish_update_trace[OF this] c1 obtain e2 where
      "r = SCHEDULE_NOK" "events s' = events s1 @ e2" "schedule_calls e2 = [SCHEDULE_NOK]"
      "session_consistent s'"
      by auto
    with e1 have "events s' = events s @ (e1 @ e2) \<and> schedule_calls (e1 @ e2) = [r]
        \<and> session_consistent s'"
      by (simp add: schedule_calls_append quiet_schedule_calls)
    then show ?thesis by blast
  next
    case True
    with c1 obtain inverters where inv: "inverter_list (api s1) = Some inverters"
      by (auto simp: session_consistent_def)
    obtain r2 s2 where f: "fetch_all w (map fst inverters) SCHEDULE_NOK s1 = (r2, s2)"
      by fastforce
    with assms(2) l ok True inv obtain u where u: "r2 = Inr u"
      and fin: "finish_update w u s2 = (Inr r, s')"
      by (cases r2) (auto simp: async_update_def)
    from fetch_all_trace[OF f[unfolded u]] c1 obtain e2 where
      e2: "events s2 = events s1 @ e2" "schedule_calls e2 = []" "session_consistent s2"
      by auto
    from finish_update_trace[OF fin] e2 obtain e3 where
      e3: "r = u" "events s' = events s2 @ e3" "schedule_calls e3 = [u]" "session_consistent s'"
      by auto
    from e1 e2 e3 have "events s' = events s @ (e1 @ e2 @ e3)
        \<and> schedule_calls (e1 @ e2 @ e3) = [r] \<and> session_consistent s'"
      by (simp add: schedule_calls_append quiet_schedule_calls)
    then show ?thesis by blast
  qed
qed

theorem async_update_schedules_once_witness:
  "\<exists>s' evs. async_update one_inverter_world example_service = (Inr SCHEDULE_OK, s')
      \<and> events s' = events example_service @ evs \<and> schedule_calls evs = [SCHEDULE_OK]"
proof -
  have c: "session_consistent example_service"
    by (simp add: session_consistent_def example_simps)
  obtain s' where a: "async_update one_inverter_world example_service = (Inr SCHEDULE_OK, s')"
    using async_update_one_inverter
    by (cases "async_update one_inverter_world example_service") auto
  from async_update_schedules_once[OF c a] a show ?thesis by blast
qed

text \<open>
  Claim C10. In a call of \<^verbatim>\<open>async_update\<close> that returns, the update loop fetches
  every inverter of the directory, in order, and the results are successes followed by
  failures only: once a fetch has returned no data, every later fetch of the cycle returns
  no data. When at least one fetch has failed, the outcome is \<^verbatim>\<open>SCHEDULE_NOK\<close> and the
  cycle ends with the session offline and without a directory, as the forced logout has
  left it; when every fetch has succeeded, the outcome is \<^verbatim>\<open>SCHEDULE_OK\<close>.
\<close>

theorem async_update_failure_sticks:
  assumes "async_update w s = (Inr r, s')"
  shows "\<exists>evs n m. events s' = events s @ evs
           \<and> fetches evs = zip (cycle_inverters w s) (replicate n True @ replicate m False)
           \<and> n + m = length (cycle_inverters w s)
           \<and> (0 < m \<longrightarrow> r = SCHEDULE_NOK \<and> \<not> online (api s')
                        \<and> inverter_list (api s') = None)
           \<and> (m = 0 \<and> 0 < n \<longrightarrow> r = SCHEDULE_OK)"
proof -
  obtain r1 s1 where l: "service_login w s = (r1, s1)" by fastforce
  with assms obtain ok where ok: "r1 = Inr ok"
    by (cases r1) (auto simp: async_update_def)
  from service_login_frame[OF l] obtain e1 where
    e1: "events s1 = events s @ e1" "list_all quiet_event e1"
    by (auto simp: quiet_step_def)
  have none: ?thesis
    if "events s' = events s1 @ e2" "fetches e2 = []" "cycle_inverters w s = []" for e2
  proof -
    from that e1 have "events s' = events s @ (e1 @ e2)
        \<and> fetches (e1 @ e2) = zip (cycle_inverters w s) (replicate 0 True @ replicate 0 False)
        \<and> 0 + 0 = length (cycle_inverters w s)"
      by (simp add: fetches_append quiet_fetches)
    then show ?thesis by blast
  qed
  show ?thesis
  proof (cases ok)
    case False
    with assms l ok have "finish_update w SCHEDULE_NOK s1 = (Inr r, s')"
      by (simp add: async_update_def)
    from finish_update_fetches[OF this] none l ok False show ?thesis
      by (auto simp: cycle_inverters_def)
  next
    case True
    show ?thesis
    proof (cases "inverter_list (api s1)")
      case None
      with assms l ok True have "s' = s1" by (simp add: async_update_def)
      with none[of "[]"] l ok True None show ?thesis by (simp add: cycle_inverters_def)
    next
      case (Some inverters)
      have ks: "cycle_inverters w s = map fst inverters"
        using l ok True Some by (simp add: cycle_inverters_def)
      obtain r2 s2 where f: "fetch_all w (map fst inverters) SCHEDULE_NOK s1 = (r2, s2)"
        by fastforce
      with assms l ok True Some obtain u where u: "r2 = Inr u"
        and fin: "finish_update w u s2 = (Inr r, s')"
        by (cases r2) (auto simp: async_update_def)
      from fetch_all_fetches[OF f[unfolded u]] obtain e2 n m where
        e2: "events s2 = events s1 @ e2"
          "fetches e2 = zip (map fst inverters) (replicate n True @ replicate m False)"
          "n + m = length (map fst inverters)"
          "0 < m \<longrightarrow> u = SCHEDULE_NOK \<and> \<not> online (api s2) \<and> inverter_list (api s2) = None"
          "m = 0 \<longrightarrow> (0 < n \<longrightarrow> u = SCHEDULE_OK)"
        by blast
      from finish_update_fetches[OF fin] obtain e3 where
        e3: "r = u" "events s' = events s2 @ e3" "fetches e3 = []"
        by auto
      note fa = finish_update_api[OF fin]
      from e1 e2 e3 ks have "events s' = events s @ (e1 @ e2 @ e3)
          \<and> fetches (e1 @ e2 @ e3)
              = zip (cycle_inverters w s) (replicate n True @ replicate m False)
          \<and> n + m = length (cycle_inverters w s)"
        by (simp add: fetches_append quiet_fetches)
      moreover have "0 < m \<longrightarrow> r = SCHEDULE_NOK \<and> \<not> online (api s')
                        \<and> inverter_list (api s') = None"
        using e2(4) e3(1) fa by simp
      moreover have "m = 0 \<and> 0 < n \<longrightarrow> r = SCHEDULE_OK"
        using e2(5) e3(1) by simp
      ultimately show ?thesis by blast
    qed
  qed
qed

theorem async_update_failure_sticks_witness:
  "\<exists>s' evs. async_update three_inverter_world example_service = (Inr SCHEDULE_NOK, s')
      \<and> events s' = events example_service @ evs
      \<and> fetches evs = zip [KStr ''INV1'', KStr ''INV2'', KStr ''INV3''] [True, False, False]
      \<and> \<not> online (api s') \<and> inverter_list (api s') = None"
proof -
  let ?w = three_inverter_world and ?s = example_service
  obtain s' where a: "async_update ?w ?s = (Inr SCHEDULE_NOK, s')"
    using async_update_three_inverters_fetches by (cases "async_update ?w ?s") auto
  have ev0: "events ?s = []" by (simp add: example_simps)
  from async_update_failure_sticks[OF a] obtain evs n m where t:
    "events s' = events ?s @ evs"
    "fetches evs = zip (cycle_inverters ?w ?s) (replicate n True @ replicate m False)"
    "n + m = length (cycle_inverters ?w ?s)"
    "0 < m \<longrightarrow> \<not> online (api s') \<and> inverter_list (api s') = None"
    by blast
  from t(1) ev0 a async_update_three_inverters_fetches
  have f: "fetches evs = [(KStr ''INV1'', True), (KStr ''INV2'', False), (KStr ''INV3'', False)]"
    by simp
  have "0 < m"
  proof (rule ccontr)
    assume "\<not> 0 < m"
    with t(2) f have "zip (cycle_inverters ?w ?s) (replicate n True)
        = [(KStr ''INV1'', True), (KStr ''INV2'', False), (KStr ''INV3'', False)]"
      by simp
    then have "(KStr ''INV2'', False) \<in> set (zip (cycle_inverters ?w ?s) (replicate n True))"
      by simp
    then show False by (auto dest: set_zip_rightD)
  qed
  with t(1,4) f a show ?thesis by auto
qed

text \<open>
  Claim C9. \<^verbatim>\<open>InverterService._login\<close> on an online session returns True and leaves the
  whole state as it is, the events included: no request is sent. After a call that has
  returned True the next call is such a no-op, and the two calls together have sent at most
  one GET, the discovery of the inverters.
\<close>

theorem service_login_online_noop:
  "(online (api s) \<longrightarrow> service_login w s = (Inr True, s))
   \<and> (service_login w s = (Inr True, s1) \<longrightarrow>
        service_login w s1 = (Inr True, s1)
        \<and> (\<exists>evs. events s1 = events s @ evs
              \<and> length (filter (\<lambda>m. m = GET) (requests evs)) \<le> 1))"
proof (intro conjI impI)
  assume "online (api s)"
  then show "service_login w s = (Inr True, s)" by (simp add: service_login_def)
next
  assume a: "service_login w s = (Inr True, s1)"
  then have "online (api s1)"
    by (auto simp: service_login_def now_def split: if_splits prod.splits sum.splits)
  then show "service_login w s1 = (Inr True, s1)" by (simp add: service_login_def)
next
  assume a: "service_login w s = (Inr True, s1)"
  show "\<exists>evs. events s1 = events s @ evs \<and> length (filter (\<lambda>m. m = GET) (requests evs)) \<le> 1"
  proof (cases "online (api s)")
    case True
    with a have "s1 = s" by (simp add: service_login_def)
    then have "events s1 = events s @ [] \<and> length (filter (\<lambda>m. m = GET) (requests [])) \<le> 1"
      by simp
    then show ?thesis by blast
  next
    case False
    with a obtain ok s0 where l: "login w s = (Inr ok, s0)"
      and s1: "events s1 = events s0 @ [Now] \<or> events s1 = events s0"
      by (auto simp: service_login_def now_def split: if_splits prod.splits sum.splits)
    from login_requests[OF l] obtain evs where
      evs: "events s0 = events s @ evs" "length (filter (\<lambda>m. m = GET) (requests evs)) \<le> 1"
      by blast
    from s1 show ?thesis
    proof
      assume "events s1 = events s0 @ [Now]"
      with evs have "events s1 = events s @ (evs @ [Now])
          \<and> length (filter (\<lambda>m. m = GET) (requests (evs @ [Now]))) \<le> 1"
        by (simp add: requests_append)
      then show ?thesis by blast
    next
      assume "events s1 = events s0"
      with evs show ?thesis by auto
    qed
  qed
qed

theorem service_login_online_noop_witness:
  "\<exists>s1 evs. service_login one_inverter_world example_service = (Inr True, s1)
      \<and> service_login one_inverter_world s1 = (Inr True, s1)
      \<and> events s1 = events example_service @ evs
      \<and> length (filter (\<lambda>m. m = GET) (requests evs)) \<le> 1"
proof -
  have "fst (service_login one_inverter_world example_service) = Inr True"
    by (simp add: service_simps example_simps Let_def)
  then obtain s1 where a: "service_login one_inverter_world example_service = (Inr True, s1)"
    by (cases "service_login one_inverter_world example_service") auto
  from service_login_online_noop[of example_service one_inverter_world s1] a
  show ?thesis by blast
qed

section \<open>ginlong\_api: a value that does not convert\<close>






section \<open>service: errors that leave the update cycle\<close>

text \<open>
  The ways in which an error leaves a cycle. A \<^verbatim>\<open>do_update\<close> that is called between
  two states raises. The dispatch of a set of measurements raises: the set has no serial;
  or the device has a subscription and the set has no state, or the state is 1 and the
  device has a subscriber of the daily energy and none of the state, or a
  \<^verbatim>\<open>do_update\<close> of the dispatch raises. The step of the update loop for one inverter
  raises: the fetch raises, or the dispatch of the fetched set does. \<open>reaches\<close> tells
  that the cycle from \<open>s\<close> comes to the fetch of the inverter \<open>k\<close> in the state
  \<open>s2\<close>.
\<close>

definition do_update_raised :: "world \<Rightarrow> service \<Rightarrow> service \<Rightarrow> error \<Rightarrow> bool" where
  "do_update_raised w s s' e \<longleftrightarrow>
     (\<exists>n subscriber v t. length (events s) \<le> n \<and> n < length (events s')
        \<and> events s' ! n = DataUpdated subscriber v t
        \<and> do_update w n subscriber v t = Inl e)"

definition dispatch_fault ::
  "world \<Rightarrow> measurements \<Rightarrow> service \<Rightarrow> service \<Rightarrow> error \<Rightarrow> bool" where
  "dispatch_fault w data s s' e \<longleftrightarrow>
     (\<not> dict_contains data INVERTER_SERIAL \<and> e = AttributeError)
   \<or> (\<exists>serial. getattr data INVERTER_SERIAL = Inr (VStr serial)
         \<and> subscriptions s serial \<noteq> None
         \<and> ((\<not> dict_contains data INVERTER_STATE \<and> e = ValueError)
            \<or> ((\<exists>state. getattr data INVERTER_STATE = Inr state \<and> dvalue_eq_num state 1)
                \<and> subscriber_of s serial INVERTER_ENERGY_TODAY \<noteq> Inl KeyError
                \<and> subscriber_of s serial INVERTER_STATE = Inl KeyError \<and> e = KeyError)
            \<or> do_update_raised w s s' e))"

definition fetch_fault :: "world \<Rightarrow> key \<Rightarrow> service \<Rightarrow> service \<Rightarrow> error \<Rightarrow> bool" where
  "fetch_fault w k s s' e \<longleftrightarrow>
     fetch_inverter_data w k s = (Inl e, s')
   \<or> (\<exists>data s1 s2. fetch_inverter_data w k s = (Inr (Some data), s1)
         \<and> events s2 = events s1 @ [Fetched k True, Now]
         \<and> subscriptions s2 = subscriptions s
         \<and> update_devices w data s2 = (Inl e, s')
         \<and> dispatch_fault w data s2 s' e)"

definition reaches :: "world \<Rightarrow> service \<Rightarrow> key \<Rightarrow> service \<Rightarrow> bool" where
  "reaches w s k s2 \<longleftrightarrow>
     (\<exists>s1 inverters pre post u. service_login w s = (Inr True, s1)
        \<and> inverter_list (api s1) = Some inverters
        \<and> map fst inverters = pre @ k # post
        \<and> fetch_all w pre SCHEDULE_NOK s1 = (Inr u, s2))"

lemma keys_present:
  "keys d = Inr ks \<Longrightarrow> a \<in> set ks \<Longrightarrow> dict_contains d a"
proof -
  assume k: "keys d = Inr ks" and a: "a \<in> set ks"
  from k have st: "INVERTER_STATE \<in> set (map fst d)"
    and ks: "ks = INVERTER_STATE # remove1 INVERTER_STATE (map fst d)"
    by (auto simp: keys_def Let_def split: if_splits)
  from a ks have "a = INVERTER_STATE \<or> a \<in> set (remove1 INVERTER_STATE (map fst d))"
    by simp
  then have "a \<in> set (map fst d)"
    using st set_remove1_subset[of INVERTER_STATE "map fst d"] by blast
  then show ?thesis by (simp add: dict_contains_def)
qed

lemma subscriber_of_cong:
  "subscriptions s' = subscriptions s \<Longrightarrow> subscriber_of s' serial a = subscriber_of s serial a"
  by (simp add: subscriber_of_def)

lemma subscriber_of_error: "subscriber_of s serial a = Inl e \<Longrightarrow> e = KeyError"
  by (auto simp: subscriber_of_def split: option.splits)

lemma energy_today_value_fault:
  assumes "energy_today_value w data serial v s = (Inl e, s')"
    and "dict_contains data INVERTER_STATE"
  shows "e = KeyError \<and> subscriber_of s serial INVERTER_STATE = Inl KeyError
         \<and> (\<exists>state. getattr data INVERTER_STATE = Inr state \<and> dvalue_eq_num state 1)"
  using assms
  by (auto simp: energy_today_value_def now_def Let_def getattr_def dict_contains_iff
      subscriber_of_def split: option.splits prod.splits if_splits)

lemma data_updated_fault:
  "data_updated w sub v t s = (Inl e, s') \<Longrightarrow>
   events s' = events s @ [DataUpdated sub v t]
   \<and> do_update w (length (events s)) sub v t = Inl e"
  by (auto simp: data_updated_def Let_def split: if_splits sum.splits)

lemma quiet_step_length: "quiet_step s s' \<Longrightarrow> length (events s) \<le> length (events s')"
  by (auto simp: quiet_step_def)

lemma do_update_raised_mono:
  "do_update_raised w s1 s' e \<Longrightarrow> length (events s) \<le> length (events s1)
   \<Longrightarrow> do_update_raised w s s' e"
  by (auto simp: do_update_raised_def) (meson le_trans)

lemma dispatch_raises:
  assumes "dispatch w data serial ks s = (Inl e, s')"
    and "\<forall>a\<in>set ks. dict_contains data a"
    and "dict_contains data INVERTER_STATE"
  shows "((\<exists>state. getattr data INVERTER_STATE = Inr state \<and> dvalue_eq_num state 1)
          \<and> subscriber_of s serial INVERTER_ENERGY_TODAY \<noteq> Inl KeyError
          \<and> subscriber_of s serial INVERTER_STATE = Inl KeyError \<and> e = KeyError)
         \<or> do_update_raised w s s' e"
  using assms(1,2)
proof (induction ks arbitrary: s)
  case Nil
  then show ?case by simp
next
  case (Cons a ks)
  show ?case
  proof (cases "subscriber_of s serial a")
    case (Inl e1)
    with Cons.prems have "dispatch w data serial ks s = (Inl e, s')" by simp
    with Cons.IH Cons.prems(2) show ?thesis by simp
  next
    case (Inr sub)
    from Cons.prems obtain v where v: "getattr data a = Inr v"
      by (auto simp: getattr_def dict_contains_iff)
    obtain r1 s1 where e1: "(if a = INVERTER_ENERGY_TODAY
                      then energy_today_value w data serial v s
                      else (Inr v, s)) = (r1, s1)" by fastforce
    then have f1: "quiet_step s s1 \<and> subscriptions s1 = subscriptions s"
      by (auto simp: quiet_step_refl split: if_splits dest: energy_today_value_frame)
    show ?thesis
    proof (cases r1)
      case (Inl e2)
      with Inr v e1 Cons.prems have ee: "e2 = e" "s1 = s'" by auto
      from e1 Inl have a: "a = INVERTER_ENERGY_TODAY"
        and en: "energy_today_value w data serial v s = (Inl e2, s1)"
        by (auto split: if_splits)
      from energy_today_value_fault[OF en assms(3)] Inr a ee show ?thesis by auto
    next
      case v': (Inr v')
      obtain r2 s2 where d: "data_updated w sub v' (last_updated s1) s1 = (r2, s2)"
        by fastforce
      note f2 = data_updated_frame[OF d]
      show ?thesis
      proof (cases r2)
        case (Inl e3)
        with Inr v e1 v' d Cons.prems have ee: "e3 = e" "s2 = s'" by auto
        from data_updated_fault[OF d[unfolded Inl]] ee
        have "events s' = events s1 @ [DataUpdated sub v' (last_updated s1)]"
          "do_update w (length (events s1)) sub v' (last_updated s1) = Inl e"
          by auto
        then have "length (events s1) \<le> length (events s1)
            \<and> length (events s1) < length (events s')
            \<and> events s' ! length (events s1) = DataUpdated sub v' (last_updated s1)
            \<and> do_update w (length (events s1)) sub v' (last_updated s1) = Inl e"
          by simp
        then have "do_update_raised w s1 s' e"
          unfolding do_update_raised_def by blast
        with f1 show ?thesis
          by (auto dest: do_update_raised_mono quiet_step_length)
      next
        case u: (Inr u)
        with Inr v e1 v' d Cons.prems have rec: "dispatch w data serial ks s2 = (Inl e, s')"
          by simp
        have sub2: "subscriptions s2 = subscriptions s" using f1 f2 by simp
        have len: "length (events s) \<le> length (events s2)"
          using f1 f2 by (meson le_trans quiet_step_length)
        from Cons.IH[OF rec] Cons.prems(2)
        have "((\<exists>state. getattr data INVERTER_STATE = Inr state \<and> dvalue_eq_num state 1)
          \<and> subscriber_of s2 serial INVERTER_ENERGY_TODAY \<noteq> Inl KeyError
          \<and> subscriber_of s2 serial INVERTER_STATE = Inl KeyError \<and> e = KeyError)
         \<or> do_update_raised w s2 s' e" by simp
        with len show ?thesis
          by (auto simp: subscriber_of_cong[OF sub2] dest: do_update_raised_mono)
      qed
    qed
  qed
qed

lemma update_devices_raises:
  assumes "update_devices w data s = (Inl e, s')"
  shows "dispatch_fault w data s s' e"
proof (cases "getattr data INVERTER_SERIAL")
  case (Inl e1)
  with assms show ?thesis
    by (auto simp: update_devices_def dispatch_fault_def getattr_def dict_contains_iff
        split: option.splits)
next
  case (Inr x)
  with assms obtain serial m where x: "x = VStr serial" and m: "subscriptions s serial = Some m"
    by (auto simp: update_devices_def split: dvalue.splits option.splits)
  show ?thesis
  proof (cases "keys data")
    case (Inl e2)
    with assms Inr x m have "e = ValueError" "\<not> dict_contains data INVERTER_STATE"
      by (auto simp: update_devices_def keys_def Let_def dict_contains_def split: if_splits)
    with Inr x m show ?thesis by (auto simp: dispatch_fault_def)
  next
    case ks: (Inr ks)
    with assms Inr x m have d: "dispatch w data serial ks s = (Inl e, s')"
      by (simp add: update_devices_def)
    from ks have st: "dict_contains data INVERTER_STATE"
      by (auto simp: keys_def Let_def dict_contains_def split: if_splits)
    from dispatch_raises[OF d _ st] keys_present[OF ks] Inr x m show ?thesis
      by (auto simp: dispatch_fault_def)
  qed
qed

lemma update_devices_without_state:
  assumes "getattr data INVERTER_SERIAL = Inr (VStr serial)"
    and "subscriptions s serial \<noteq> None"
    and "\<not> dict_contains data INVERTER_STATE"
  shows "update_devices w data s = (Inl ValueError, s)"
  using assms
  by (auto simp: update_devices_def keys_def Let_def dict_contains_def)

lemma fetch_all_append:
  "fetch_all w (xs @ ys) u s =
     (case fetch_all w xs u s of
        (Inl e, s1) \<Rightarrow> (Inl e, s1)
      | (Inr u1, s1) \<Rightarrow> fetch_all w ys u1 s1)"
proof (induction xs arbitrary: u s)
  case Nil
  then show ?case by simp
next
  case (Cons x xs)
  then show ?case
    by (auto simp: Let_def split: prod.splits sum.splits option.splits)
qed

lemma fetch_all_raises:
  "fetch_all w ks u s = (Inl e, s') \<Longrightarrow>
   \<exists>pre k post u' s2. ks = pre @ k # post \<and> fetch_all w pre u s = (Inr u', s2)
      \<and> fetch_fault w k s2 s' e"
proof (induction ks arbitrary: u s)
  case Nil
  then show ?case by simp
next
  case (Cons k ks)
  obtain r1 s1 where f: "fetch_inverter_data w k s = (r1, s1)" by fastforce
  note fr = fetch_inverter_data_frame[OF f]
  have first: ?case if "fetch_fault w k s s' e"
  proof -
    from that have "k # ks = [] @ k # ks \<and> fetch_all w [] u s = (Inr u, s)
        \<and> fetch_fault w k s s' e" by simp
    then show ?thesis by blast
  qed
  have later: ?case
    if rec: "fetch_all w ks u1 s5 = (Inl e, s')"
      and step: "fetch_all w [k] u s = (Inr u1, s5)" for u1 s5
  proof -
    from Cons.IH[OF rec] obtain pre k' post u' s2 where
      p: "ks = pre @ k' # post" "fetch_all w pre u1 s5 = (Inr u', s2)" "fetch_fault w k' s2 s' e"
      by blast
    have "fetch_all w (k # pre) u s = (Inr u', s2)"
      using fetch_all_append[of w "[k]" pre u s] step p(2) by simp
    with p have "k # ks = (k # pre) @ k' # post \<and> fetch_all w (k # pre) u s = (Inr u', s2)
        \<and> fetch_fault w k' s2 s' e" by simp
    then show ?thesis by blast
  qed
  show ?case
  proof (cases r1)
    case (Inl e1)
    with f Cons.prems have "fetch_inverter_data w k s = (Inl e, s')" by simp
    then show ?thesis by (intro first) (simp add: fetch_fault_def)
  next
    case (Inr od)
    show ?thesis
    proof (cases od)
      case None
      let ?s2 = "service_logout (s1\<lparr>events := events s1 @ [Fetched k False]\<rparr>)"
      from Cons.prems f Inr None have "fetch_all w ks SCHEDULE_NOK ?s2 = (Inl e, s')"
        by simp
      moreover from f Inr None have "fetch_all w [k] u s = (Inr SCHEDULE_NOK, ?s2)"
        by simp
      ultimately show ?thesis by (rule later)
    next
      case (Some data)
      let ?s2 = "s1\<lparr>events := events s1 @ [Fetched k True]\<rparr>"
      obtain t s3 where n: "now w ?s2 = (t, s3)" by fastforce
      let ?s4 = "s3\<lparr>last_updated := Some t\<rparr>"
      obtain r5 s5 where u5: "update_devices w data ?s4 = (r5, s5)" by fastforce
      have s4: "events ?s4 = events s1 @ [Fetched k True, Now]"
        "subscriptions ?s4 = subscriptions s"
        using n fr by (auto simp: now_def)
      show ?thesis
      proof (cases r5)
        case (Inl e5)
        with Cons.prems f Inr Some n u5 have ee: "e5 = e" "s5 = s'" by auto
        from update_devices_raises[OF u5[unfolded Inl]] ee
        have "dispatch_fault w data ?s4 s' e" by simp
        with f Inr Some s4 u5 Inl ee have "fetch_fault w k s s' e"
          unfolding fetch_fault_def by blast
        then show ?thesis by (rule first)
      next
        case (Inr u')
        with Cons.prems f \<open>r1 = Inr od\<close> Some n u5
        have "fetch_all w ks SCHEDULE_OK s5 = (Inl e, s')" by simp
        moreover from f \<open>r1 = Inr od\<close> Some n u5 Inr
        have "fetch_all w [k] u s = (Inr SCHEDULE_OK, s5)" by simp
        ultimately show ?thesis by (rule later)
      qed
    qed
  qed
qed

lemma service_login_raises:
  "service_login w s = (Inl e, s') \<Longrightarrow> \<not> online (api s) \<and> login w s = (Inl e, s')"
  by (auto simp: service_login_def now_def split: if_splits prod.splits sum.splits)

lemma async_update_outcome:
  assumes "async_update w s = (Inr u, s')"
  shows "u = SCHEDULE_OK \<or> u = SCHEDULE_NOK"
proof -
  obtain r1 s1 where l: "service_login w s = (r1, s1)" by fastforce
  with assms obtain ok where ok: "r1 = Inr ok"
    by (cases r1) (auto simp: async_update_def)
  show ?thesis
  proof (cases "ok \<and> inverter_list (api s1) \<noteq> None")
    case False
    with assms l ok show ?thesis
      by (auto simp: async_update_def split: option.splits if_splits
          dest!: finish_update_fetches)
  next
    case True
    then obtain inverters where inv: "inverter_list (api s1) = Some inverters" by auto
    obtain r2 s2 where f: "fetch_all w (map fst inverters) SCHEDULE_NOK s1 = (r2, s2)"
      by fastforce
    with assms l ok True inv obtain u2 where u2: "r2 = Inr u2"
      and fin: "finish_update w u2 s2 = (Inr u, s')"
      by (cases r2) (auto simp: async_update_def)
    from fetch_all_fetches[OF f[unfolded u2]] have "u2 = SCHEDULE_OK \<or> u2 = SCHEDULE_NOK"
      by (metis gr0I)
    with finish_update_fetches[OF fin] show ?thesis by simp
  qed
qed

lemma async_update_raises:
  assumes "async_update w s = (Inl e, s')"
  shows "(\<not> online (api s) \<and> login w s = (Inl e, s'))
         \<or> (\<exists>k s2. reaches w s k s2 \<and> fetch_fault w k s2 s' e)"
proof -
  obtain r1 s1 where l: "service_login w s = (r1, s1)" by fastforce
  show ?thesis
  proof (cases r1)
    case (Inl e1)
    with assms l have "service_login w s = (Inl e, s')" by (simp add: async_update_def)
    from service_login_raises[OF this] show ?thesis by simp
  next
    case (Inr ok)
    have nofin: "finish_update w u0 s0 \<noteq> (Inl e, s')" for u0 s0
      by (auto dest: finish_update_fetches)
    from assms l Inr nofin have ok: "ok"
      by (auto simp: async_update_def split: if_splits)
    with assms l Inr obtain inverters where inv: "inverter_list (api s1) = Some inverters"
      by (cases "inverter_list (api s1)") (auto simp: async_update_def)
    obtain r2 s2 where f: "fetch_all w (map fst inverters) SCHEDULE_NOK s1 = (r2, s2)"
      by fastforce
    with assms l Inr ok inv nofin have "fetch_all w (map fst inverters) SCHEDULE_NOK s1 = (Inl e, s')"
      by (cases r2) (auto simp: async_update_def)
    from fetch_all_raises[OF this] obtain pre k post u' s3 where
      "map fst inverters = pre @ k # post" "fetch_all w pre SCHEDULE_NOK s1 = (Inr u', s3)"
      "fetch_fault w k s3 s' e"
      by blast
    moreover from l Inr ok have "service_login w s = (Inr True, s1)" by simp
    ultimately have "reaches w s k s3 \<and> fetch_fault w k s3 s' e"
      unfolding reaches_def using inv by blast
    then show ?thesis by blast
  qed
qed

lemma async_update_without_state:
  assumes "reaches w s k s2"
    and "fetch_inverter_data w k s2 = (Inr (Some data), s3)"
    and "getattr data INVERTER_SERIAL = Inr (VStr serial)"
    and "subscriptions s serial \<noteq> None"
    and "\<not> dict_contains data INVERTER_STATE"
  shows "\<exists>s'. async_update w s = (Inl ValueError, s')"
proof -
  from assms(1) obtain s1 inverters pre post u where
    l: "service_login w s = (Inr True, s1)" and inv: "inverter_list (api s1) = Some inverters"
    and ks: "map fst inverters = pre @ k # post"
    and p: "fetch_all w pre SCHEDULE_NOK s1 = (Inr u, s2)"
    unfolding reaches_def by blast
  have sub: "subscriptions s2 = subscriptions s"
    using service_login_frame[OF l] fetch_all_trace[OF p] by auto
  let ?s4 = "s3\<lparr>events := events s3 @ [Fetched k True]\<rparr>"
  obtain t s5 where n: "now w ?s4 = (t, s5)" by fastforce
  let ?s6 = "s5\<lparr>last_updated := Some t\<rparr>"
  have "subscriptions ?s6 serial \<noteq> None"
    using n fetch_inverter_data_frame[OF assms(2)] sub assms(4) by (auto simp: now_def)
  from update_devices_without_state[OF assms(3) this assms(5)]
  have "update_devices w data ?s6 = (Inl ValueError, ?s6)" .
  with assms(2) n have "fetch_all w (k # post) u s2 = (Inl ValueError, ?s6)"
    by simp
  with p have "fetch_all w (pre @ k # post) SCHEDULE_NOK s1 = (Inl ValueError, ?s6)"
    by (simp add: fetch_all_append)
  with l inv ks have "async_update w s = (Inl ValueError, ?s6)"
    by (simp add: async_update_def)
  then show ?thesis by blast
qed

lemma async_update_returns_without_fault:
  assumes "online (api s) \<or> (\<forall>e s'. login w s \<noteq> (Inl e, s'))"
    and "\<forall>k s2 e s'. reaches w s k s2 \<longrightarrow> \<not> fetch_fault w k s2 s' e"
  shows "\<exists>u s'. async_update w s = (Inr u, s') \<and> (u = SCHEDULE_OK \<or> u = SCHEDULE_NOK)"
proof (cases "async_update w s")
  case (Pair r s')
  show ?thesis
  proof (cases r)
    case (Inl e)
    with Pair async_update_raises[of w s e s'] assms show ?thesis by blast
  next
    case (Inr u)
    with Pair async_update_outcome[of w s u s'] show ?thesis by blast
  qed
qed

text \<open>
  Claim C4, as stated, fails: the fetched measurement set has no state, the device has a
  subscriber of the daily energy, and \<^verbatim>\<open>keys()\<close> raises ValueError, which leaves
  \<^verbatim>\<open>update_devices\<close> and \<^verbatim>\<open>async_update\<close>.
\<close>

theorem async_update_raises_counterexample:
  "fst (fetch_inverter_data stateless_world (KStr ''INV1'') online_service) =
     Inr (Some [(INVERTER_SERIAL, VStr ''INV1''), (INVERTER_POWER_STATE, VInt 1),
                (INVERTER_ENERGY_TODAY, VFloat (25 / 2))])
   \<and> subscriber_of example_service ''INV1'' INVERTER_ENERGY_TODAY = Inr 1
   \<and> fst (async_update stateless_world example_service) = Inl ValueError"
  by (simp add: service_simps example_simps stateless_world_def
      extract_stateless_page stateless_page_not_null Let_def)

text \<open>
  Claim C4, amended. A call of \<^verbatim>\<open>async_update\<close> that returns yields one of the two
  outcomes. An error leaves \<^verbatim>\<open>async_update\<close> only from a step of the cycle itself:
  the login of the cycle raises, or the cycle comes to an inverter whose fetch raises or
  whose fetched set makes the dispatch raise (no serial; no state for a device with a
  subscription; state 1 with a subscriber of the daily energy and none of the state; a
  \<^verbatim>\<open>do_update\<close> of the dispatch raises). And whenever the cycle comes to a fetch that
  returns a set without the state for a device with a subscription, ValueError leaves
  \<^verbatim>\<open>async_update\<close>.
\<close>

theorem async_update_error_sources:
  "(async_update w s = (Inr u, s') \<longrightarrow> u = SCHEDULE_OK \<or> u = SCHEDULE_NOK)
   \<and> (async_update w s = (Inl e, s') \<longrightarrow>
        (\<not> online (api s) \<and> login w s = (Inl e, s'))
        \<or> (\<exists>k s2. reaches w s k s2 \<and> fetch_fault w k s2 s' e))
   \<and> (reaches w s k s2 \<and> fetch_inverter_data w k s2 = (Inr (Some data), s3)
        \<and> getattr data INVERTER_SERIAL = Inr (VStr serial)
        \<and> subscriptions s serial \<noteq> None \<and> \<not> dict_contains data INVERTER_STATE
       \<longrightarrow> (\<exists>s'. async_update w s = (Inl ValueError, s')))"
  using async_update_outcome async_update_raises async_update_without_state
  by blast

theorem async_update_error_sources_witness:
  "(\<exists>u s'. async_update one_inverter_world example_service = (Inr u, s')
       \<and> (u = SCHEDULE_OK \<or> u = SCHEDULE_NOK))
   \<and> (\<exists>s' k s2. async_update stateless_world example_service = (Inl ValueError, s')
       \<and> reaches stateless_world example_service k s2
       \<and> fetch_fault stateless_world k s2 s' ValueError)"
proof
  let ?w = one_inverter_world and ?s = example_service
  obtain s' where a: "async_update ?w ?s = (Inr SCHEDULE_OK, s')"
    using async_update_one_inverter by (cases "async_update ?w ?s") auto
  from async_update_error_sources[of ?w ?s SCHEDULE_OK s'] a
  show "\<exists>u s'. async_update ?w ?s = (Inr u, s') \<and> (u = SCHEDULE_OK \<or> u = SCHEDULE_NOK)"
    by blast
next
  let ?w = stateless_world and ?s = example_service
  let ?d = "[(INVERTER_SERIAL, VStr ''INV1''), (INVERTER_POWER_STATE, VInt 1),
             (INVERTER_ENERGY_TODAY, VFloat (25 / 2))]"
  obtain s1 where l: "service_login ?w ?s = (Inr True, s1)"
    using stateless_cycle by (cases "service_login ?w ?s") auto
  with stateless_cycle have inv: "inverter_list (api s1) = Some [(KStr ''INV1'', JInt 42)]"
    and f: "fst (fetch_inverter_data ?w (KStr ''INV1'') s1) = Inr (Some ?d)"
    by simp_all
  from f obtain s3 where f3: "fetch_inverter_data ?w (KStr ''INV1'') s1 = (Inr (Some ?d), s3)"
    by (cases "fetch_inverter_data ?w (KStr ''INV1'') s1") auto
  have "map fst [(KStr ''INV1'', JInt 42)] = [] @ KStr ''INV1'' # []
      \<and> fetch_all ?w [] SCHEDULE_NOK s1 = (Inr SCHEDULE_NOK, s1)"
    by simp
  with l inv have r: "reaches ?w ?s (KStr ''INV1'') s1"
    unfolding reaches_def by blast
  have g: "getattr ?d INVERTER_SERIAL = Inr (VStr ''INV1'')"
    and c: "\<not> dict_contains ?d INVERTER_STATE"
    and sub: "subscriptions ?s ''INV1'' \<noteq> None"
    by (simp_all add: getattr_def dict_get_def dict_contains_def example_simps)
  from async_update_error_sources[of ?w ?s _ _ _ "KStr ''INV1''" s1 ?d s3 "''INV1''"]
    r f3 g c sub
  obtain s' where a: "async_update ?w ?s = (Inl ValueError, s')" by blast
  have "login ?w ?s \<noteq> (Inl ValueError, s')"
    using stateless_cycle by auto
  with async_update_error_sources[of ?w ?s _ s' ValueError] a
  have "\<exists>k s2. reaches ?w ?s k s2 \<and> fetch_fault ?w k s2 s' ValueError"
    by blast
  with a show "\<exists>s' k s2. async_update ?w ?s = (Inl ValueError, s')
       \<and> reaches ?w ?s k s2 \<and> fetch_fault ?w k s2 s' ValueError"
    by blast
qed

section \<open>service: the daily energy in the morning\<close>

text \<open>The values passed to \<^verbatim>\<open>data_updated\<close> of one subscriber.\<close>

fun delivered :: "nat \<Rightarrow> event list \<Rightarrow> dvalue list" where
  "delivered subscriber [] = []"
| "delivered subscriber (DataUpdated sub v t # evs) =
     (if sub = subscriber then v # delivered subscriber evs else delivered subscriber evs)"
| "delivered subscriber (e # evs) = delivered subscriber evs"

text \<open>What the code passes on for the daily energy, in every case.\<close>

lemma energy_today_value_cases:
  assumes "getattr data INVERTER_STATE = Inr state"
    and "subscriber_of s serial INVERTER_STATE = Inr subscriber"
  shows "fst (energy_today_value w data serial v s) =
           Inr (if hour (clock w (length (events s))) < 12 \<and> dvalue_eq_num state 2 then VInt 0
                else if hour (clock w (length (events s))) < 12 \<and> dvalue_eq_num state 1
                        \<and> (case measured s subscriber of
                              None \<Rightarrow> False
                            | Some last_updated_state \<Rightarrow>
                                last_updated_state + minutes 10
                                  < clock w (Suc (length (events s))))
                     then VInt 0
                else v)"
  using assms
  by (auto simp: energy_today_value_def now_def Let_def subscriber_of_def
      split: option.splits prod.splits)

text \<open>
  Claim C1 against the code, at 08:00 with the state 1 and a daily energy of 12.5. With a
  state accepted 5 minutes before, the claim gives 0 and the code passes 12.5 on; with a
  state accepted 15 minutes before, the claim gives 12.5 and the code passes 0 on: the
  comparison with the grace period of 10 minutes is the wrong way round.
\<close>

theorem energy_today_grace_period_inverted:
  "delivered 1 (events (snd (update_devices (at_time (hours 8)) (energy_data 1)
                               (morning_service (hours 8) 5)))) = [VFloat (25 / 2)]
   \<and> delivered 1 (events (snd (update_devices (at_time (hours 8)) (energy_data 1)
                               (morning_service (hours 8) 15)))) = [VInt 0]"
  by (simp add: service_simps example_simps at_time_def energy_data_def morning_service_def
      Let_def)

text \<open>The cases of the claim that the code has: standby (2) in the morning gives 0, the
  afternoon gives the raw value.\<close>

lemma energy_today_other_cases:
  "delivered 1 (events (snd (update_devices (at_time (hours 8)) (energy_data 2)
                               (morning_service (hours 8) 5)))) = [VInt 0]
   \<and> delivered 1 (events (snd (update_devices (at_time (hours 14)) (energy_data 2)
                               (morning_service (hours 14) 5)))) = [VFloat (25 / 2)]
   \<and> delivered 1 (events (snd (update_devices (at_time (hours 14)) (energy_data 1)
                               (morning_service (hours 14) 15)))) = [VFloat (25 / 2)]"
  by (simp add: service_simps example_simps at_time_def energy_data_def morning_service_def
      Let_def)

end
